theory Spec2Isabelle
  imports Complex_Main "HOL-Library.Multiset"
begin

section \<open>Smart parking: slot normalisation, allocation and path selection (src/src/App.js)\<close>

text \<open>
  A shallow embedding of the decision logic of \<^verbatim>\<open>SmartParkingSystem\<close>.
  A JavaScript number is modelled by the real it denotes, and every arithmetic operation
  of the code rounds its exact result to the nearest double (\<open>fl64\<close> below); numbers
  that are integers throughout are kept as integers. NaN and results beyond the largest
  finite double (Infinity) are outside the model. Strings are lists of 8-bit characters,
  and \<^verbatim>\<open>toLowerCase\<close> is the ASCII one. The React state hooks become one
  record that each handler takes and returns. The browser's random source, the engine's
  \<^verbatim>\<open>Array.prototype.sort\<close> and the detection service's replies are parameters.
\<close>

subsection \<open>Numbers\<close>

text \<open>
  Rounding of a real to the nearest binary64 value, ties to the even significand.
  \<open>exponent64 x\<close> is the exponent \<open>e\<close> of the binade \<open>2^e \<le> |x| < 2^(e+1)\<close>,
  and \<open>-1022\<close> for the subnormal range; the spacing of doubles there is \<open>2^(e-52)\<close>.
\<close>

definition roundTiesToEven :: "real \<Rightarrow> int" where
  "roundTiesToEven x =
     (let n = \<lfloor>x\<rfloor>; d = x - of_int n
      in if d < 1 / 2 then n else if 1 / 2 < d then n + 1 else if even n then n else n + 1)"

function expUp :: "real \<Rightarrow> int" where
  "expUp x = (if x < 2 then 0 else expUp (x / 2) + 1)"
  by auto
termination
proof (relation "measure (\<lambda>x. nat \<lceil>x\<rceil>)")
  show "wf (measure (\<lambda>x::real. nat \<lceil>x\<rceil>))" by simp
next
  fix x :: real assume "\<not> x < 2"
  then have "x / 2 \<le> x - 1" by simp
  then have "\<lceil>x / 2\<rceil> \<le> \<lceil>x - 1\<rceil>" by (rule ceiling_mono)
  moreover have "0 < \<lceil>x\<rceil>" using \<open>\<not> x < 2\<close> by simp
  ultimately show "(x / 2, x) \<in> measure (\<lambda>x. nat \<lceil>x\<rceil>)" by simp
qed

definition minExponent :: int where
  "minExponent = - 1022"

function expDown :: "real \<Rightarrow> int" where
  "expDown x =
     (if 1 \<le> x then 0
      else if x < 2 powi (minExponent + 1) then minExponent
      else expDown (2 * x) - 1)"
  by auto
termination
proof (relation "measure (\<lambda>x. nat \<lceil>1 / x\<rceil>)")
  show "wf (measure (\<lambda>x::real. nat \<lceil>1 / x\<rceil>))" by simp
next
  fix x :: real assume a: "\<not> 1 \<le> x" and b: "\<not> x < 2 powi (minExponent + 1)"
  have pos: "0 < x"
  proof -
    have "(0::real) < 2 powi (minExponent + 1)" by simp
    with b show ?thesis by linarith
  qed
  then have big: "1 < 1 / x" using a by simp
  define t where "t = 1 / x"
  have "2 \<le> \<lceil>t\<rceil>" using big unfolding t_def by linarith
  then have "(2::real) \<le> of_int \<lceil>t\<rceil>" by linarith
  moreover have "t \<le> of_int \<lceil>t\<rceil>" by simp
  ultimately have "t / 2 \<le> of_int \<lceil>t\<rceil> - 1" by linarith
  then have "t / 2 \<le> of_int (\<lceil>t\<rceil> - 1)" by simp
  then have le: "\<lceil>t / 2\<rceil> \<le> \<lceil>t\<rceil> - 1" by (simp only: ceiling_le_iff)
  have half: "1 / (2 * x) = t / 2" by (simp add: t_def)
  have "0 < \<lceil>t\<rceil>" using \<open>2 \<le> \<lceil>t\<rceil>\<close> by linarith
  with le have "nat \<lceil>t / 2\<rceil> < nat \<lceil>t\<rceil>" by linarith
  then show "(2 * x, x) \<in> measure (\<lambda>x. nat \<lceil>1 / x\<rceil>)"
    unfolding in_measure half t_def [symmetric] .
qed

declare expUp.simps [simp del] expDown.simps [simp del]

definition exponent64 :: "real \<Rightarrow> int" where
  "exponent64 x = (if 1 \<le> \<bar>x\<bar> then expUp \<bar>x\<bar> else expDown \<bar>x\<bar>)"

definition fl64 :: "real \<Rightarrow> real" where
  "fl64 x =
     (if x = 0 then 0
      else of_int (roundTiesToEven (x / 2 powi (exponent64 x - 52))) * 2 powi (exponent64 x - 52))"

subsection \<open>Strings\<close>

definition toLowerChar :: "char \<Rightarrow> char" where
  "toLowerChar c =
     (let n = (of_char c :: nat) in if 65 \<le> n \<and> n \<le> 90 then char_of (n + 32) else c)"

definition toLowerCase :: "string \<Rightarrow> string" where
  "toLowerCase s = map toLowerChar s"

text \<open>\<^verbatim>\<open>String.prototype.includes\<close>: the needle occurs at some offset of the string.\<close>

fun includes_str :: "string \<Rightarrow> string \<Rightarrow> bool" where
  "includes_str [] k = (k = [])"
| "includes_str (c # cs) k = (take (length k) (c # cs) = k \<or> includes_str cs k)"

text \<open>Decimal rendering of a number inside a template literal.\<close>

fun digits10 :: "nat \<Rightarrow> string" where
  "digits10 n =
     (if n < 10 then [char_of (48 + n)]
      else digits10 (n div 10) @ [char_of (48 + n mod 10)])"

declare digits10.simps [simp del]

subsection \<open>Arrays\<close>

text \<open>
  \<^verbatim>\<open>Array.prototype.reduce\<close> without an initial value: the first element starts the
  accumulator, and an empty array raises a TypeError (\<open>None\<close>).
\<close>

definition reduce :: "('a \<Rightarrow> 'a \<Rightarrow> 'a) \<Rightarrow> 'a list \<Rightarrow> 'a option" where
  "reduce f xs = (case xs of [] \<Rightarrow> None | x # rest \<Rightarrow> Some (foldl f x rest))"

text \<open>
  \<^verbatim>\<open>Array.prototype.sort\<close> is the engine's, not the program's: it is a parameter
  \<open>srt\<close> of every function that sorts. ECMAScript promises of it that the result is a
  rearrangement of the array, and that it is in order when the comparator is consistent on
  the elements; for any other comparator the order is left to the engine.
  \<open>consistentOn\<close> asks a little more of the comparator than ECMAScript does, so an
  engine that conforms to ECMAScript is a \<open>conformingSort\<close>.
\<close>

definition consistentOn :: "('a \<Rightarrow> 'a \<Rightarrow> real) \<Rightarrow> 'a set \<Rightarrow> bool" where
  "consistentOn cmp S =
     ((\<forall>a \<in> S. \<forall>b \<in> S. (cmp a b < 0) = (0 < cmp b a))
      \<and> (\<forall>a \<in> S. \<forall>b \<in> S. \<forall>c \<in> S. cmp a b \<le> 0 \<and> cmp b c \<le> 0 \<longrightarrow> cmp a c \<le> 0))"

definition conformingSort :: "(('a \<Rightarrow> 'a \<Rightarrow> real) \<Rightarrow> 'a list \<Rightarrow> 'a list) \<Rightarrow> bool" where
  "conformingSort srt =
     (\<forall>cmp xs. mset (srt cmp xs) = mset xs
        \<and> (consistentOn cmp (set xs) \<longrightarrow> sorted_wrt (\<lambda>a b. cmp a b \<le> 0) (srt cmp xs)))"

text \<open>
  Since ECMAScript 2019 the sort is stable as well: elements that the comparator ranks equal
  keep their order. This is asked only where a property needs it.
\<close>

definition stableSort :: "(('a \<Rightarrow> 'a \<Rightarrow> real) \<Rightarrow> 'a list \<Rightarrow> 'a list) \<Rightarrow> bool" where
  "stableSort srt =
     (\<forall>cmp xs. consistentOn cmp (set xs) \<longrightarrow>
        (\<forall>a \<in> set xs. filter (\<lambda>b. cmp a b = 0) (srt cmp xs) = filter (\<lambda>b. cmp a b = 0) xs))"

subsection \<open>Detections and slots\<close>

record prediction =
  pred_x :: real
  pred_y :: real
  pred_width :: real
  pred_height :: real
  pred_confidence :: real
  pred_class :: string

record image_data =
  img_width :: real
  img_height :: real

record slot =
  slot_number :: nat
  status :: string
  row :: nat
  col :: nat
  slot_x :: real
  slot_y :: real
  slot_width :: real
  slot_height :: real
  confidence :: real
  original_class :: string
  is_corner :: bool
  is_edge :: bool
  distance_from_entrance :: real

definition emptyClasses :: "string list" where
  "emptyClasses = [''empty'', ''parking spot'', ''available'', ''free'']"

definition isEmptySlot :: "string \<Rightarrow> bool" where
  "isEmptySlot className =
     list_ex (\<lambda>empty. includes_str (toLowerCase className) (toLowerCase empty)) emptyClasses"

definition spatialCompare :: "prediction \<Rightarrow> prediction \<Rightarrow> real" where
  "spatialCompare a b =
     (let yDiff = \<bar>fl64 (pred_y a - pred_y b)\<bar>
      in if yDiff < 50 then fl64 (pred_x a - pred_x b) else fl64 (pred_y a - pred_y b))"

definition sortSlotsSpatiallly ::
    "((prediction \<Rightarrow> prediction \<Rightarrow> real) \<Rightarrow> prediction list \<Rightarrow> prediction list) \<Rightarrow>
     prediction list \<Rightarrow> prediction list" where
  "sortSlotsSpatiallly srt predictions = srt spatialCompare predictions"

definition slotsPerRow :: nat where
  "slotsPerRow = 8"

definition isCornerSlot :: "nat \<Rightarrow> nat \<Rightarrow> bool" where
  "isCornerSlot index totalSlots =
     (let r = int (index div slotsPerRow);
          c = int (index mod slotsPerRow);
          totalRows = int ((totalSlots + slotsPerRow - 1) div slotsPerRow)
      in (r = 0 \<or> r = totalRows - 1) \<and> (c = 0 \<or> c = int slotsPerRow - 1))"

definition isEdgeSlot :: "nat \<Rightarrow> nat \<Rightarrow> bool" where
  "isEdgeSlot index totalSlots =
     (let r = int (index div slotsPerRow);
          c = int (index mod slotsPerRow);
          totalRows = int ((totalSlots + slotsPerRow - 1) div slotsPerRow)
      in r = 0 \<or> r = totalRows - 1 \<or> c = 0 \<or> c = int slotsPerRow - 1)"

text \<open>
  The entrance is taken at the bottom centre of the image; a missing image record or a
  zero dimension (falsy in JavaScript) gives the fallback 640 and 480.
\<close>

definition calculateDistanceFromEntrance :: "prediction \<Rightarrow> image_data option \<Rightarrow> real" where
  "calculateDistanceFromEntrance p imageData =
     (let entranceX = (case imageData of
                         None \<Rightarrow> 640
                       | Some im \<Rightarrow> if img_width im \<noteq> 0 then fl64 (img_width im / 2) else 640);
          entranceY = (case imageData of
                         None \<Rightarrow> 480
                       | Some im \<Rightarrow> if img_height im \<noteq> 0 then img_height im else 480);
          dx = fl64 (pred_x p - entranceX);
          dy = fl64 (pred_y p - entranceY)
      in fl64 (sqrt (fl64 (fl64 (dx * dx) + fl64 (dy * dy)))))"

text \<open>The object built for one sorted detection (lines 61 to 75).\<close>

definition makeSlot :: "nat \<Rightarrow> image_data option \<Rightarrow> nat \<Rightarrow> prediction \<Rightarrow> slot" where
  "makeSlot totalSlots imageData index p =
     \<lparr> slot_number = index + 1,
       status = (if isEmptySlot (pred_class p) then ''empty'' else ''occupied''),
       row = index div 8,
       col = index mod 8,
       slot_x = pred_x p,
       slot_y = pred_y p,
       slot_width = pred_width p,
       slot_height = pred_height p,
       confidence = pred_confidence p,
       original_class = pred_class p,
       is_corner = isCornerSlot index totalSlots,
       is_edge = isEdgeSlot index totalSlots,
       distance_from_entrance = calculateDistanceFromEntrance p imageData \<rparr>"

definition makeSlots :: "prediction list \<Rightarrow> image_data option \<Rightarrow> slot list" where
  "makeSlots sortedSlots imageData =
     map (\<lambda>(index, p). makeSlot (length sortedSlots) imageData index p) (enumerate 0 sortedSlots)"

record api_response =
  resp_ok :: bool
  resp_status :: nat
  resp_statusText :: string
  resp_predictions :: "prediction list option"
  resp_image :: "image_data option"

record slots_result =
  total_slots :: nat
  empty_slots :: "nat list"
  occupied_slots :: "nat list"
  slots :: "slot list"
  detection_image :: "image_data option"

text \<open>
  \<^verbatim>\<open>roboflowAPI.detectParkingSlots\<close>, from the reply of the detection service on.
  A thrown \<^verbatim>\<open>Error\<close> is \<open>Inl\<close> of its message. Each call parses a fresh reply, so
  the sort in place changes no array that a later call reads.
\<close>

definition roboflow_detectParkingSlots ::
    "((prediction \<Rightarrow> prediction \<Rightarrow> real) \<Rightarrow> prediction list \<Rightarrow> prediction list) \<Rightarrow>
     string \<Rightarrow> api_response \<Rightarrow> string + slots_result" where
  "roboflow_detectParkingSlots srt key response =
     (if key = [] then Inl ''Please enter your Roboflow API key''
      else if \<not> resp_ok response then
        Inl (''API Error: '' @ digits10 (resp_status response) @ '' - '' @ resp_statusText response)
      else case resp_predictions response of
        None \<Rightarrow> Inl ''No parking slots detected. Try adjusting the image or confidence threshold.''
      | Some predictions \<Rightarrow>
          if predictions = [] then
            Inl ''No parking slots detected. Try adjusting the image or confidence threshold.''
          else
            let sortedSlots = sortSlotsSpatiallly srt predictions
            in Inr \<lparr> total_slots = length sortedSlots,
                     empty_slots = map (\<lambda>(i, _). i + 1)
                       (enumerate 0 (filter (\<lambda>s. isEmptySlot (pred_class s)) sortedSlots)),
                     occupied_slots = map (\<lambda>(i, _). i + 1)
                       (enumerate 0 (filter (\<lambda>s. \<not> isEmptySlot (pred_class s)) sortedSlots)),
                     slots = makeSlots sortedSlots (resp_image response),
                     detection_image = resp_image response \<rparr>)"

subsection \<open>Vehicle classes\<close>

text \<open>The keys of \<^verbatim>\<open>classMapping\<close> in insertion order, as \<^verbatim>\<open>Object.entries\<close> lists them.\<close>

definition classMapping :: "(string \<times> string) list" where
  "classMapping =
     [(''car'', ''car''), (''sedan'', ''car''), (''hatchback'', ''car''), (''suv'', ''car''),
      (''truck'', ''truck''), (''pickup'', ''truck''),
      (''bus'', ''bus''),
      (''motorcycle'', ''motorcycle''), (''motorbike'', ''motorcycle''),
      (''bike'', ''motorcycle''), (''scooter'', ''motorcycle''),
      (''van'', ''van''), (''minivan'', ''van'')]"

fun firstIncluded :: "string \<Rightarrow> (string \<times> string) list \<Rightarrow> string option" where
  "firstIncluded lowerClass [] = None"
| "firstIncluded lowerClass ((key, val) # entries) =
     (if includes_str lowerClass key then Some val else firstIncluded lowerClass entries)"

definition mapClassToVehicleType :: "string \<Rightarrow> string" where
  "mapClassToVehicleType detectedClass =
     (case firstIncluded (toLowerCase detectedClass) classMapping of
        Some val \<Rightarrow> val
      | None \<Rightarrow> ''car'')"

record vehicle_result =
  vehicle_type :: string
  veh_confidence :: real
  veh_x :: real
  veh_y :: real
  veh_width :: real
  veh_height :: real
  veh_original_class :: string

text \<open>
  \<^verbatim>\<open>roboflowAPI.detectVehicleType\<close>, from the reply of the detection service on:
  the prediction of highest confidence (the earliest one on a tie) gives the vehicle.
\<close>

definition roboflow_detectVehicleType :: "string \<Rightarrow> api_response \<Rightarrow> string + vehicle_result" where
  "roboflow_detectVehicleType key response =
     (if key = [] then Inl ''Please enter your Roboflow API key''
      else if \<not> resp_ok response then
        Inl (''Vehicle detection failed: '' @ digits10 (resp_status response))
      else case resp_predictions response of
        None \<Rightarrow> Inl ''No vehicle detected in the image''
      | Some predictions \<Rightarrow>
          if predictions = [] then Inl ''No vehicle detected in the image''
          else case reduce (\<lambda>best current.
                      if pred_confidence current > pred_confidence best then current else best)
                    predictions of
            None \<Rightarrow> Inl ''Reduce of empty array with no initial value''
          | Some bestPrediction \<Rightarrow>
              Inr \<lparr> vehicle_type = mapClassToVehicleType (pred_class bestPrediction),
                    veh_confidence = pred_confidence bestPrediction,
                    veh_x = pred_x bestPrediction,
                    veh_y = pred_y bestPrediction,
                    veh_width = pred_width bestPrediction,
                    veh_height = pred_height bestPrediction,
                    veh_original_class = pred_class bestPrediction \<rparr>)"

subsection \<open>Allocation rules\<close>

record vehicle_rule =
  priority :: string
  allow_middle :: bool

definition vehicleRules :: "(string \<times> vehicle_rule) list" where
  "vehicleRules =
     [(''car'', \<lparr> priority = ''closest'', allow_middle = True \<rparr>),
      (''motorcycle'', \<lparr> priority = ''furthest'', allow_middle = True \<rparr>),
      (''truck'', \<lparr> priority = ''corner_edge'', allow_middle = False \<rparr>),
      (''bus'', \<lparr> priority = ''corner_edge'', allow_middle = False \<rparr>),
      (''van'', \<lparr> priority = ''corner_edge'', allow_middle = False \<rparr>)]"

definition closerSlot :: "slot \<Rightarrow> slot \<Rightarrow> slot" where
  "closerSlot closest s =
     (if distance_from_entrance s < distance_from_entrance closest then s else closest)"

definition furtherSlot :: "slot \<Rightarrow> slot \<Rightarrow> slot" where
  "furtherSlot furthest s =
     (if distance_from_entrance s > distance_from_entrance furthest then s else furthest)"

text \<open>
  The choice of \<^verbatim>\<open>bestSlot\<close> in \<^verbatim>\<open>detectVehicleAndAllocate\<close> (lines 301 to 323).
  \<open>Inl\<close> is a TypeError raised on the way (no rule for the vehicle type, or a reduce
  of an empty array); \<open>Inr None\<close> is a \<^verbatim>\<open>bestSlot\<close> left null or undefined.
\<close>

definition selectBestSlot :: "string \<Rightarrow> slot list \<Rightarrow> string + slot option" where
  "selectBestSlot vehicleType emptySlots =
     (case map_of vehicleRules vehicleType of
        None \<Rightarrow> Inl ''Cannot read properties of undefined''
      | Some rules \<Rightarrow>
          if priority rules = ''closest'' then
            (case reduce closerSlot emptySlots of
               None \<Rightarrow> Inl ''Reduce of empty array with no initial value''
             | Some s \<Rightarrow> Inr (Some s))
          else if priority rules = ''furthest'' then
            (case reduce furtherSlot emptySlots of
               None \<Rightarrow> Inl ''Reduce of empty array with no initial value''
             | Some s \<Rightarrow> Inr (Some s))
          else if priority rules = ''corner_edge'' then
            (let cornerEdgeSlots = filter (\<lambda>s. is_corner s \<or> is_edge s) emptySlots
             in if length cornerEdgeSlots > 0 then
                  (case reduce furtherSlot cornerEdgeSlots of
                     None \<Rightarrow> Inl ''Reduce of empty array with no initial value''
                   | Some s \<Rightarrow> Inr (Some s))
                else Inr (case emptySlots of [] \<Rightarrow> None | s # _ \<Rightarrow> Some s))
          else Inr None)"

subsection \<open>Paths\<close>

record path =
  path_id :: nat
  path_name :: string
  distance :: real
  tJunctions :: int
  vehicleIntensity :: "int option"
  score :: "real option"

text \<open>
  \<^verbatim>\<open>generatePathsToSlot\<close>. The argument \<open>rnd\<close> lists the values that the successive
  calls of \<^verbatim>\<open>Math.random()\<close> return; path \<open>i\<close> reads two of them, first for its
  distance and then for its junction count. The junction count adds small integers,
  which doubles hold exactly.
\<close>

definition generatePathsToSlot :: "(nat \<Rightarrow> real) \<Rightarrow> slot \<Rightarrow> path list" where
  "generatePathsToSlot rnd s =
     (let pathCount = (if row s \<le> 1 then 4 else 3)
      in map (\<lambda>i. \<lparr> path_id = i + 1,
                     path_name = ''Path '' @ digits10 (i + 1),
                     distance = fl64 (fl64 (65 + fl64 (real i * 25)) + fl64 (rnd (2 * i) * 20)),
                     tJunctions = 1 + int i + \<lfloor>fl64 (rnd (2 * i + 1) * 2)\<rfloor>,
                     vehicleIntensity = None,
                     score = None \<rparr>)
           [0..<pathCount])"

subsection \<open>Session state and handlers\<close>

record session =
  currentStep :: nat
  parkingImage :: "string option"
  vehicleImage :: "string option"
  detectedSlots :: "slot list"
  detectedVehicleType :: "vehicle_result option"
  allocatedSlot :: "slot option"
  pathsData :: "path list"
  pathVehicleIntensities :: "nat \<rightharpoonup> int"
  optimalPath :: "path option"
  isProcessing :: bool
  error :: string
  detectionImage :: "image_data option"
  apiKey :: string
  showApiKey :: bool

definition initialState :: session where
  "initialState =
     \<lparr> currentStep = 1, parkingImage = None, vehicleImage = None, detectedSlots = [],
       detectedVehicleType = None, allocatedSlot = None, pathsData = [],
       pathVehicleIntensities = Map.empty, optimalPath = None, isProcessing = False,
       error = [], detectionImage = None, apiKey = [], showApiKey = False \<rparr>"

text \<open>An image is held as a data URL; null and the empty string are falsy.\<close>

definition falsyImage :: "string option \<Rightarrow> bool" where
  "falsyImage img = (case img of None \<Rightarrow> True | Some url \<Rightarrow> url = [])"

text \<open>
  Step 3. The argument is the outcome of the request to the detection service:
  \<open>Inl\<close> the message of a rejected fetch, \<open>Inr\<close> the reply.
\<close>

definition detectParkingSlots ::
    "((prediction \<Rightarrow> prediction \<Rightarrow> real) \<Rightarrow> prediction list \<Rightarrow> prediction list) \<Rightarrow>
     string + api_response \<Rightarrow> session \<Rightarrow> session" where
  "detectParkingSlots srt outcome st =
     (if falsyImage (parkingImage st) then st
      else
        let st1 = st\<lparr>isProcessing := True, error := []\<rparr>;
            res = (case outcome of
                     Inl msg \<Rightarrow> (if apiKey st = [] then Inl ''Please enter your Roboflow API key''
                                 else Inl msg)
                   | Inr response \<Rightarrow> roboflow_detectParkingSlots srt (apiKey st) response)
        in case res of
             Inl msg \<Rightarrow>
               st1\<lparr>error := ''Failed to detect parking slots: '' @ msg, isProcessing := False\<rparr>
           | Inr result \<Rightarrow>
               st1\<lparr>detectedSlots := slots result,
                   detectionImage := (case detection_image result of
                                        None \<Rightarrow> detectionImage st1
                                      | Some im \<Rightarrow> Some im),
                   currentStep := 2,
                   isProcessing := False\<rparr>)"

text \<open>
  Step 5. \<open>rnd\<close> is the random source of the path generator, \<open>outcome\<close> the outcome of
  the request to the vehicle model. Every exit leaves \<^verbatim>\<open>isProcessing\<close> false
  (the \<^verbatim>\<open>finally\<close> block); an exception is caught and becomes the error message.
\<close>

definition detectVehicleAndAllocate ::
    "(nat \<Rightarrow> real) \<Rightarrow> string + api_response \<Rightarrow> session \<Rightarrow> session" where
  "detectVehicleAndAllocate rnd outcome st =
     (if falsyImage (vehicleImage st) then st
      else
        let st1 = st\<lparr>isProcessing := True, error := []\<rparr>;
            res = (case outcome of
                     Inl msg \<Rightarrow> (if apiKey st = [] then Inl ''Please enter your Roboflow API key''
                                 else Inl msg)
                   | Inr response \<Rightarrow> roboflow_detectVehicleType (apiKey st) response)
        in case res of
             Inl msg \<Rightarrow>
               st1\<lparr>error := ''Failed to detect vehicle: '' @ msg, isProcessing := False\<rparr>
           | Inr vehicleResult \<Rightarrow>
               let st2 = st1\<lparr>detectedVehicleType := Some vehicleResult\<rparr>;
                   emptySlots = filter (\<lambda>s. status s = ''empty'') (detectedSlots st)
               in if length emptySlots = 0 then
                    st2\<lparr>error := ''No empty slots available'', isProcessing := False\<rparr>
                  else
                    case selectBestSlot (vehicle_type vehicleResult) emptySlots of
                      Inl msg \<Rightarrow>
                        st2\<lparr>error := ''Failed to detect vehicle: '' @ msg, isProcessing := False\<rparr>
                    | Inr bestSlot \<Rightarrow>
                        let st3 = st2\<lparr>allocatedSlot := bestSlot\<rparr>;
                            st4 = (case bestSlot of
                                     None \<Rightarrow> st3
                                   | Some b \<Rightarrow> st3\<lparr>pathsData := generatePathsToSlot rnd b\<rparr>)
                        in st4\<lparr>currentStep := 3, isProcessing := False\<rparr>)"

text \<open>Step 6. Path \<open>k\<close> of the list reads the \<open>k\<close>-th random value.\<close>

definition simulatedIntensity :: "real \<Rightarrow> int" where
  "simulatedIntensity r = \<lfloor>fl64 (r * 80)\<rfloor> + 10"

definition detectPathVehicleIntensities :: "(nat \<Rightarrow> real) \<Rightarrow> session \<Rightarrow> session" where
  "detectPathVehicleIntensities rnd st =
     (let intensities =
            foldl (\<lambda>m (k, p). m(path_id p \<mapsto> simulatedIntensity (rnd k))) Map.empty
              (enumerate 0 (pathsData st))
      in st\<lparr>error := [], pathVehicleIntensities := intensities, currentStep := 4,
            isProcessing := False\<rparr>)"

text \<open>
  Step 7. The score expression of line 386: three products and two sums, each rounded;
  the literals are the doubles nearest to 0.1, 0.6 and 0.3. A null score compares as 0.
\<close>

definition weightedScore :: "real \<Rightarrow> int \<Rightarrow> int \<Rightarrow> real" where
  "weightedScore d j v =
     fl64 (fl64 (fl64 (d * fl64 0.1) + fl64 (real_of_int j * fl64 0.6))
           + fl64 (real_of_int v * fl64 0.3))"

definition scoreOf :: "path \<Rightarrow> real" where
  "scoreOf p = (case score p of None \<Rightarrow> 0 | Some v \<Rightarrow> v)"

definition scorePath :: "(nat \<rightharpoonup> int) \<Rightarrow> path \<Rightarrow> path" where
  "scorePath intensities p =
     (let intensity = (case intensities (path_id p) of None \<Rightarrow> 0 | Some v \<Rightarrow> v);
          sc = weightedScore (distance p) (tJunctions p) intensity
      in p\<lparr>vehicleIntensity := Some intensity, score := Some sc\<rparr>)"

definition betterPath :: "path \<Rightarrow> path \<Rightarrow> path" where
  "betterPath best p = (if scoreOf p < scoreOf best then p else best)"

definition pathsWithScores :: "session \<Rightarrow> path list" where
  "pathsWithScores st = map (scorePath (pathVehicleIntensities st)) (pathsData st)"

text \<open>The reduce of an empty path list raises a TypeError that nothing catches (\<open>None\<close>).\<close>

definition calculateOptimalPath :: "session \<Rightarrow> session option" where
  "calculateOptimalPath st =
     (case reduce betterPath (pathsWithScores st) of
        None \<Rightarrow> None
      | Some bestPath \<Rightarrow> Some (st\<lparr>optimalPath := Some bestPath, currentStep := 5\<rparr>))"

text \<open>
  \<^verbatim>\<open>parseInt\<close> with no radix: leading white space, an optional sign, an optional
  \<^verbatim>\<open>0x\<close> prefix, then the longest run of digits; \<open>None\<close> is NaN. A character
  is a code unit below 256, so the white space is the ASCII one and the no-break space.
  The value of the digits is rounded to a double, which is an integer again. A digit run
  beyond the largest double, and the engine's freedom to read digits after the twentieth
  as zeros, are outside the model.
\<close>

definition isWhiteSpace :: "char \<Rightarrow> bool" where
  "isWhiteSpace c = (let n = (of_char c :: nat) in n = 32 \<or> (9 \<le> n \<and> n \<le> 13) \<or> n = 160)"

definition digitValue :: "char \<Rightarrow> nat option" where
  "digitValue c =
     (let n = (of_char c :: nat)
      in if 48 \<le> n \<and> n \<le> 57 then Some (n - 48)
         else if 97 \<le> n \<and> n \<le> 122 then Some (n - 87)
         else if 65 \<le> n \<and> n \<le> 90 then Some (n - 55)
         else None)"

definition isDigitOf :: "nat \<Rightarrow> char \<Rightarrow> bool" where
  "isDigitOf radix c = (case digitValue c of None \<Rightarrow> False | Some d \<Rightarrow> d < radix)"

definition digitsValue :: "nat \<Rightarrow> string \<Rightarrow> nat" where
  "digitsValue radix ds =
     foldl (\<lambda>acc c. acc * radix + (case digitValue c of None \<Rightarrow> 0 | Some d \<Rightarrow> d)) 0 ds"

text \<open>The sign and the exact value of the digit run, before rounding.\<close>

definition parseDigits :: "string \<Rightarrow> (bool \<times> nat) option" where
  "parseDigits str =
     (let s1 = dropWhile isWhiteSpace str;
          negative = (take 1 s1 = ''-'');
          s2 = (if take 1 s1 = ''-'' \<or> take 1 s1 = ''+'' then drop 1 s1 else s1);
          hex = (take 2 s2 = ''0x'' \<or> take 2 s2 = ''0X'');
          radix = (if hex then 16 else 10);
          s3 = (if hex then drop 2 s2 else s2);
          ds = takeWhile (isDigitOf radix) s3
      in if ds = [] then None else Some (negative, digitsValue radix ds))"

definition parseInt :: "string \<Rightarrow> int option" where
  "parseInt str =
     (case parseDigits str of
        None \<Rightarrow> None
      | Some (negative, v) \<Rightarrow>
          Some ((if negative then - 1 else 1) * \<lfloor>fl64 (real v)\<rfloor>))"

definition handleVehicleIntensityChange :: "nat \<Rightarrow> string \<Rightarrow> session \<Rightarrow> session" where
  "handleVehicleIntensityChange pathId v st =
     st\<lparr>pathVehicleIntensities :=
          (pathVehicleIntensities st)(pathId \<mapsto> (case parseInt v of None \<Rightarrow> 0 | Some n \<Rightarrow> n))\<rparr>"

definition resetSystem :: "session \<Rightarrow> session" where
  "resetSystem st =
     st\<lparr>currentStep := 1, parkingImage := None, vehicleImage := None, detectedSlots := [],
        detectedVehicleType := None, allocatedSlot := None, pathsData := [],
        pathVehicleIntensities := Map.empty, optimalPath := None, detectionImage := None,
        error := []\<rparr>"

subsection \<open>Example data\<close>

text \<open>An empty slot with a given number, distance from the entrance and edge flag.\<close>

definition exampleSlot :: "nat \<Rightarrow> real \<Rightarrow> bool \<Rightarrow> slot" where
  "exampleSlot n d e =
     \<lparr> slot_number = n, status = ''empty'', row = (n - 1) div 8, col = (n - 1) mod 8,
       slot_x = 0, slot_y = 0, slot_width = 40, slot_height = 80, confidence = 90,
       original_class = ''empty'', is_corner = False, is_edge = e,
       distance_from_entrance = d \<rparr>"

text \<open>A freshly generated path, and a session that holds paths and their intensities.\<close>

definition examplePath :: "nat \<Rightarrow> real \<Rightarrow> int \<Rightarrow> path" where
  "examplePath i d j =
     \<lparr> path_id = i, path_name = ''Path '' @ digits10 i, distance = d, tJunctions = j,
       vehicleIntensity = None, score = None \<rparr>"

definition exampleSession :: "path list \<Rightarrow> (nat \<times> int) list \<Rightarrow> session" where
  "exampleSession paths intensities =
     initialState\<lparr>currentStep := 4, pathsData := paths,
                  pathVehicleIntensities := map_of intensities\<rparr>"

text \<open>A reply of the vehicle model with one detection, and a session waiting at step 2.\<close>

definition exampleVehicleReply :: "string \<Rightarrow> api_response" where
  "exampleVehicleReply cls =
     \<lparr> resp_ok = True, resp_status = 200, resp_statusText = ''OK'',
       resp_predictions = Some [\<lparr> pred_x = 320, pred_y = 240, pred_width = 200,
         pred_height = 120, pred_confidence = 87, pred_class = cls \<rparr>],
       resp_image = None \<rparr>"

definition exampleStepTwo :: "slot list \<Rightarrow> session" where
  "exampleStepTwo ss =
     initialState\<lparr>currentStep := 2, parkingImage := Some ''data:image/jpeg;base64,AA'',
                  vehicleImage := Some ''data:image/jpeg;base64,BB'', detectedSlots := ss,
                  apiKey := ''key''\<rparr>"

text \<open>
  A sort that an engine may run, for the examples: stable insertion, an element going in
  front of the first element it does not compare greater than. Where the comparator is
  consistent and ranks no two elements equal, every conforming sort returns the same list.
\<close>

fun insertBy :: "('a \<Rightarrow> 'a \<Rightarrow> real) \<Rightarrow> 'a \<Rightarrow> 'a list \<Rightarrow> 'a list" where
  "insertBy cmp v [] = [v]"
| "insertBy cmp v (w # ws) = (if cmp v w \<le> 0 then v # w # ws else w # insertBy cmp v ws)"

definition insertionSort :: "('a \<Rightarrow> 'a \<Rightarrow> real) \<Rightarrow> 'a list \<Rightarrow> 'a list" where
  "insertionSort cmp xs = foldr (insertBy cmp) xs []"

text \<open>Another one: the two halves are sorted and merged, the left element first on a tie.\<close>

fun mergeBy :: "('a \<Rightarrow> 'a \<Rightarrow> real) \<Rightarrow> 'a list \<Rightarrow> 'a list \<Rightarrow> 'a list" where
  "mergeBy cmp [] ys = ys"
| "mergeBy cmp (x # xs) [] = x # xs"
| "mergeBy cmp (x # xs) (y # ys) =
     (if cmp x y \<le> 0 then x # mergeBy cmp xs (y # ys) else y # mergeBy cmp (x # xs) ys)"

function mergeSort :: "('a \<Rightarrow> 'a \<Rightarrow> real) \<Rightarrow> 'a list \<Rightarrow> 'a list" where
  "mergeSort cmp xs =
     (if length xs < 2 then xs
      else mergeBy cmp (mergeSort cmp (take (length xs div 2) xs))
             (mergeSort cmp (drop (length xs div 2) xs)))"
  by pat_completeness auto
termination
  by (relation "measure (\<lambda>(cmp, xs). length xs)") auto

declare mergeSort.simps [simp del]

text \<open>A detection at a given centre, and a successful reply of the slot model.\<close>

definition examplePrediction :: "real \<Rightarrow> real \<Rightarrow> string \<Rightarrow> prediction" where
  "examplePrediction px py cls =
     \<lparr> pred_x = px, pred_y = py, pred_width = 40, pred_height = 80, pred_confidence = 90,
       pred_class = cls \<rparr>"

text \<open>Nine detections, eight in one row and one in the next, in no particular order.\<close>

definition exampleBatch :: "prediction list" where
  "exampleBatch =
     [examplePrediction 700 105 ''empty'', examplePrediction 150 200 ''occupied'',
      examplePrediction 100 100 ''empty'', examplePrediction 300 95 ''occupied'',
      examplePrediction 200 110 ''empty'', examplePrediction 500 100 ''empty'',
      examplePrediction 400 102 ''occupied'', examplePrediction 800 98 ''empty'',
      examplePrediction 600 100 ''free'']"

definition exampleSlotReply :: "prediction list \<Rightarrow> api_response" where
  "exampleSlotReply ps =
     \<lparr> resp_ok = True, resp_status = 200, resp_statusText = ''OK'',
       resp_predictions = Some ps, resp_image = Some \<lparr> img_width = 1280, img_height = 720 \<rparr> \<rparr>"

section \<open>Properties\<close>

subsection \<open>Rounding to doubles\<close>

lemma two_powi_Suc: "(2::real) powi (e + 1) = 2 * 2 powi e"
  by (simp add: power_int_add)

lemma two_powi_pred: "(2::real) powi (e - 1) = 2 powi e / 2"
  by (simp add: power_int_diff)

lemma expUp_bounds:
  "1 \<le> x \<Longrightarrow> 0 \<le> expUp x \<and> 2 powi (expUp x) \<le> x \<and> x < 2 powi (expUp x + 1)"
proof (induction x rule: expUp.induct)
  case (1 x)
  show ?case
  proof (cases "x < 2")
    case True
    then show ?thesis using "1.prems" by (simp add: expUp.simps [of x])
  next
    case False
    then have "1 \<le> x / 2" by simp
    with "1.IH" [OF False] have ih: "0 \<le> expUp (x / 2)" "2 powi (expUp (x / 2)) \<le> x / 2"
      "x / 2 < 2 powi (expUp (x / 2) + 1)" by simp_all
    have e: "expUp x = expUp (x / 2) + 1" using False by (simp add: expUp.simps [of x])
    have p1: "(2::real) powi (expUp (x / 2) + 1) = 2 * 2 powi expUp (x / 2)"
      by (rule two_powi_Suc)
    have p2: "(2::real) powi (expUp (x / 2) + 1 + 1) = 2 * (2 * 2 powi expUp (x / 2))"
      by (simp only: two_powi_Suc)
    have "2 powi (expUp (x / 2) + 1) \<le> x" unfolding p1 using ih(2) by linarith
    moreover have "x < 2 powi (expUp (x / 2) + 1 + 1)" unfolding p2 using ih(3) p1 by linarith
    ultimately show ?thesis unfolding e using ih(1) by simp
  qed
qed

lemma two_powi_less_cancel: "(2::real) powi a \<le> y \<Longrightarrow> y < 2 powi b \<Longrightarrow> a < b"
proof (rule ccontr)
  assume le: "(2::real) powi a \<le> y" and less: "y < 2 powi b" and "\<not> a < b"
  then have "b \<le> a" by simp
  then have "(2::real) powi b \<le> 2 powi a" by (intro power_int_increasing) simp_all
  with le less show False by linarith
qed

lemma minExponent_neg: "minExponent < 0"
  by (simp add: minExponent_def)

lemma expDown_bounds:
  "0 < x \<Longrightarrow> x < 1 \<Longrightarrow>
   minExponent \<le> expDown x \<and> expDown x < 0 \<and> x < 2 powi (expDown x + 1)
   \<and> (2 powi minExponent \<le> x \<longrightarrow> 2 powi (expDown x) \<le> x)"
proof (induction x rule: expDown.induct)
  case (1 x)
  show ?case
  proof (cases "x < 2 powi (minExponent + 1)")
    case True
    then have "expDown x = minExponent" using "1.prems" by (simp add: expDown.simps [of x])
    then show ?thesis using True minExponent_neg by simp
  next
    case False
    have e: "expDown x = expDown (2 * x) - 1"
      using False "1.prems" by (simp add: expDown.simps [of x])
    show ?thesis
    proof (cases "1 \<le> 2 * x")
      case True
      then have "expDown (2 * x) = 0" by (simp add: expDown.simps [of "2 * x"])
      then have e': "expDown x = - 1" using e by simp
      have "minExponent \<le> - 1" using minExponent_neg by linarith
      moreover have "(2::real) powi (- 1) \<le> x" using True by (simp add: power_int_minus)
      ultimately show ?thesis unfolding e' using "1.prems" by simp
    next
      case False2: False
      then have lt: "2 * x < 1" by simp
      have pos: "0 < 2 * x" using "1.prems" by simp
      have a: "\<not> 1 \<le> x" using "1.prems" by simp
      from "1.IH" [OF a False pos lt]
      have ih: "minExponent \<le> expDown (2 * x)" "expDown (2 * x) < 0"
        "2 * x < 2 powi (expDown (2 * x) + 1)"
        "2 powi minExponent \<le> 2 * x \<longrightarrow> 2 powi (expDown (2 * x)) \<le> 2 * x"
        by simp_all
      have q: "(2::real) powi (minExponent + 1 + 1) = 2 * 2 powi (minExponent + 1)"
        by (rule two_powi_Suc)
      have "(2::real) powi (minExponent + 1 + 1) \<le> 2 * x"
        unfolding q using False by linarith
      from two_powi_less_cancel [OF this ih(3)] have gt: "minExponent + 1 < expDown (2 * x)"
        by linarith
      have "(2::real) powi minExponent \<le> 2 powi (minExponent + 1)"
        by (intro power_int_increasing) simp_all
      then have "2 powi minExponent \<le> 2 * x" using False "1.prems" by linarith
      with ih(4) have low: "2 powi (expDown (2 * x)) \<le> 2 * x" by simp
      have s: "(2::real) powi (expDown (2 * x) - 1 + 1) = 2 powi expDown (2 * x)" by simp
      have u: "(2::real) powi (expDown (2 * x) + 1) = 2 * 2 powi expDown (2 * x)"
        by (rule two_powi_Suc)
      have v: "(2::real) powi (expDown (2 * x) - 1) = 2 powi expDown (2 * x) / 2"
        by (rule two_powi_pred)
      have "x < 2 powi (expDown (2 * x) - 1 + 1)" unfolding s using ih(3) u by linarith
      moreover have "2 powi (expDown (2 * x) - 1) \<le> x" unfolding v using low by linarith
      moreover have "minExponent \<le> expDown (2 * x) - 1" using gt by linarith
      moreover have "expDown (2 * x) - 1 < 0" using ih(2) by linarith
      ultimately show ?thesis unfolding e by blast
    qed
  qed
qed

lemma exponent64_ge: "minExponent \<le> exponent64 x"
proof (cases "1 \<le> \<bar>x\<bar>")
  case True
  then show ?thesis
    using expUp_bounds [of "\<bar>x\<bar>"] minExponent_neg by (simp add: exponent64_def)
next
  case False
  show ?thesis
  proof (cases "x = 0")
    case True
    have "expDown 0 = minExponent" by (simp add: expDown.simps [of 0])
    then show ?thesis using True by (simp add: exponent64_def)
  next
    case nz: False
    then show ?thesis
      using False expDown_bounds [of "\<bar>x\<bar>"] by (simp add: exponent64_def)
  qed
qed

lemma exponent64_upper: "x \<noteq> 0 \<Longrightarrow> \<bar>x\<bar> < 2 powi (exponent64 x + 1)"
proof (cases "1 \<le> \<bar>x\<bar>")
  case True
  then show ?thesis using expUp_bounds [of "\<bar>x\<bar>"] by (simp add: exponent64_def)
next
  case False
  assume "x \<noteq> 0"
  then show ?thesis using False expDown_bounds [of "\<bar>x\<bar>"] by (simp add: exponent64_def)
qed

lemma exponent64_lower: "2 powi minExponent \<le> \<bar>x\<bar> \<Longrightarrow> 2 powi (exponent64 x) \<le> \<bar>x\<bar>"
proof (cases "1 \<le> \<bar>x\<bar>")
  case True
  then show ?thesis using expUp_bounds [of "\<bar>x\<bar>"] by (simp add: exponent64_def)
next
  case False
  assume a: "2 powi minExponent \<le> \<bar>x\<bar>"
  have "(0::real) < 2 powi minExponent" by simp
  with a have "0 < \<bar>x\<bar>" by linarith
  then show ?thesis using a False expDown_bounds [of "\<bar>x\<bar>"] by (simp add: exponent64_def)
qed

lemma exponent64_eqI:
  assumes "2 powi e \<le> \<bar>x\<bar>" and "\<bar>x\<bar> < 2 powi (e + 1)" and "minExponent \<le> e"
  shows "exponent64 x = e"
proof -
  have "(2::real) powi minExponent \<le> 2 powi e"
    using assms(3) by (intro power_int_increasing) simp_all
  then have low: "2 powi minExponent \<le> \<bar>x\<bar>" using assms(1) by linarith
  have "(0::real) < 2 powi e" by simp
  then have "0 < \<bar>x\<bar>" using assms(1) by linarith
  then have nz: "x \<noteq> 0" by simp
  have "e < exponent64 x + 1"
    using two_powi_less_cancel [OF assms(1) exponent64_upper [OF nz]] .
  moreover have "exponent64 x < e + 1"
    using two_powi_less_cancel [OF exponent64_lower [OF low] assms(2)] .
  ultimately show ?thesis by linarith
qed

lemma exponent64_le:
  assumes "\<bar>x\<bar> < 2 powi (E + 1)" and "minExponent \<le> E"
  shows "exponent64 x \<le> E"
proof (cases "2 powi minExponent \<le> \<bar>x\<bar>")
  case True
  from two_powi_less_cancel [OF exponent64_lower [OF True] assms(1)] show ?thesis by simp
next
  case False
  show ?thesis
  proof (cases "x = 0")
    case True
    have "expDown 0 = minExponent" by (simp add: expDown.simps [of 0])
    then show ?thesis using True assms(2) by (simp add: exponent64_def)
  next
    case nz: False
    have "(2::real) powi minExponent \<le> 2 powi 0"
      using minExponent_neg by (intro power_int_increasing) simp_all
    then have "(2::real) powi minExponent \<le> 1" by simp
    then have lt1: "\<bar>x\<bar> < 1" using False by linarith
    have "(2::real) powi minExponent \<le> 2 powi (minExponent + 1)"
      by (intro power_int_increasing) simp_all
    then have "\<bar>x\<bar> < 2 powi (minExponent + 1)" using False by linarith
    then have "expDown \<bar>x\<bar> = minExponent" using lt1 by (simp add: expDown.simps [of "\<bar>x\<bar>"])
    then show ?thesis using lt1 assms(2) by (simp add: exponent64_def)
  qed
qed


lemma roundTiesToEven_of_int: "roundTiesToEven (of_int k) = k"
  by (simp add: roundTiesToEven_def)

lemma roundTiesToEven_ge_floor: "\<lfloor>x\<rfloor> \<le> roundTiesToEven x"
  by (simp add: roundTiesToEven_def Let_def)

lemma roundTiesToEven_le_Suc_floor: "roundTiesToEven x \<le> \<lfloor>x\<rfloor> + 1"
  by (simp add: roundTiesToEven_def Let_def)

lemma roundTiesToEven_ge: "of_int k \<le> x \<Longrightarrow> k \<le> roundTiesToEven x"
  using roundTiesToEven_ge_floor [of x] by (simp add: le_floor_iff [symmetric])

lemma roundTiesToEven_le_half:
  assumes "x < of_int k + 1 / 2"
  shows "roundTiesToEven x \<le> k"
proof (cases "\<lfloor>x\<rfloor> < k")
  case True
  then show ?thesis using roundTiesToEven_le_Suc_floor [of x] by linarith
next
  case False
  have "x < of_int k + 1" using assms by linarith
  then have "\<lfloor>x\<rfloor> \<le> k" by (simp add: floor_le_iff)
  with False have fl: "\<lfloor>x\<rfloor> = k" by linarith
  then have "x - of_int \<lfloor>x\<rfloor> < 1 / 2" using assms by simp
  then have "roundTiesToEven x = \<lfloor>x\<rfloor>" by (simp add: roundTiesToEven_def Let_def)
  then show ?thesis using fl by simp
qed

lemma roundTiesToEven_le: "x \<le> of_int k \<Longrightarrow> roundTiesToEven x \<le> k"
  by (rule roundTiesToEven_le_half) linarith

lemma roundTiesToEven_ge_half:
  assumes "of_int k - 1 / 2 < x"
  shows "k \<le> roundTiesToEven x"
proof (cases "k \<le> \<lfloor>x\<rfloor>")
  case True
  then show ?thesis using roundTiesToEven_ge_floor [of x] by linarith
next
  case False
  have "of_int (k - 1) \<le> x" using assms by simp
  then have "k - 1 \<le> \<lfloor>x\<rfloor>" by (simp only: le_floor_iff)
  with False have fl: "\<lfloor>x\<rfloor> = k - 1" by linarith
  then have "1 / 2 < x - of_int \<lfloor>x\<rfloor>" using assms by simp
  then have "roundTiesToEven x = \<lfloor>x\<rfloor> + 1" by (simp add: roundTiesToEven_def Let_def)
  then show ?thesis using fl by simp
qed

lemma fl64_zero: "fl64 0 = 0"
  by (simp add: fl64_def)

lemma fl64_eval:
  assumes "2 powi e \<le> \<bar>x\<bar>" and "\<bar>x\<bar> < 2 powi (e + 1)" and "minExponent \<le> e"
  shows "fl64 x = of_int (roundTiesToEven (x / 2 powi (e - 52))) * 2 powi (e - 52)"
proof -
  have "(0::real) < 2 powi e" by simp
  then have "0 < \<bar>x\<bar>" using assms(1) by linarith
  then have "x \<noteq> 0" by simp
  then show ?thesis by (simp add: fl64_def exponent64_eqI [OF assms])
qed

lemma fl64_ge_grid:
  assumes "a \<le> x" and "a = of_int k * 2 powi (exponent64 x - 52)"
  shows "a \<le> fl64 x"
proof (cases "x = 0")
  case True
  then show ?thesis using assms(1) by (simp add: fl64_zero)
next
  case False
  let ?q = "(2::real) powi (exponent64 x - 52)"
  have q: "0 < ?q" by simp
  have "of_int k * ?q \<le> x" using assms by simp
  then have "of_int k \<le> x / ?q" using q by (simp add: pos_le_divide_eq)
  then have "k \<le> roundTiesToEven (x / ?q)" by (rule roundTiesToEven_ge)
  then have "(of_int k :: real) \<le> of_int (roundTiesToEven (x / ?q))" by simp
  then have "of_int k * ?q \<le> of_int (roundTiesToEven (x / ?q)) * ?q"
    using q by (simp only: mult_le_cancel_right_pos)
  then show ?thesis using False assms(2) by (simp add: fl64_def)
qed

lemma fl64_le_grid:
  assumes "x \<le> a" and "a = of_int k * 2 powi (exponent64 x - 52)"
  shows "fl64 x \<le> a"
proof (cases "x = 0")
  case True
  then show ?thesis using assms(1) by (simp add: fl64_zero)
next
  case False
  let ?q = "(2::real) powi (exponent64 x - 52)"
  have q: "0 < ?q" by simp
  have "x \<le> of_int k * ?q" using assms by simp
  then have "x / ?q \<le> of_int k" using q by (simp add: pos_divide_le_eq)
  then have "roundTiesToEven (x / ?q) \<le> k" by (rule roundTiesToEven_le)
  then have "(of_int (roundTiesToEven (x / ?q)) :: real) \<le> of_int k" by simp
  then have "of_int (roundTiesToEven (x / ?q)) * ?q \<le> of_int k * ?q"
    using q by (simp only: mult_le_cancel_right_pos)
  then show ?thesis using False assms(2) by (simp add: fl64_def)
qed

lemma grid_coarser:
  assumes "e \<le> E"
  shows "of_int m * (2::real) powi (E - 52) = of_int (m * 2 ^ nat (E - e)) * 2 powi (e - 52)"
proof -
  have "(2::real) powi (E - 52) = 2 powi (int (nat (E - e)) + (e - 52))"
    using assms by simp
  also have "\<dots> = 2 powi int (nat (E - e)) * 2 powi (e - 52)"
    by (rule power_int_add) simp
  also have "\<dots> = 2 ^ nat (E - e) * 2 powi (e - 52)"
    by (simp only: power_int_of_nat)
  finally show ?thesis by simp
qed

lemma fl64_ge:
  assumes "a \<le> x" and "\<bar>x\<bar> < 2 powi (E + 1)" and "minExponent \<le> E"
    and "a = of_int m * 2 powi (E - 52)"
  shows "a \<le> fl64 x"
proof -
  have "exponent64 x \<le> E" using assms(2,3) by (rule exponent64_le)
  from grid_coarser [OF this, of m] assms(4)
  have "a = of_int (m * 2 ^ nat (E - exponent64 x)) * 2 powi (exponent64 x - 52)" by simp
  with assms(1) show ?thesis by (rule fl64_ge_grid)
qed

lemma fl64_le:
  assumes "x \<le> a" and "\<bar>x\<bar> < 2 powi (E + 1)" and "minExponent \<le> E"
    and "a = of_int m * 2 powi (E - 52)"
  shows "fl64 x \<le> a"
proof -
  have "exponent64 x \<le> E" using assms(2,3) by (rule exponent64_le)
  from grid_coarser [OF this, of m] assms(4)
  have "a = of_int (m * 2 ^ nat (E - exponent64 x)) * 2 powi (exponent64 x - 52)" by simp
  with assms(1) show ?thesis by (rule fl64_le_grid)
qed

lemma fl64_exact:
  assumes "\<bar>a\<bar> < 2 powi (E + 1)" and "minExponent \<le> E" and "a = of_int m * 2 powi (E - 52)"
  shows "fl64 a = a"
proof -
  have "a \<le> fl64 a" using assms by (intro fl64_ge [of a a E m]) simp_all
  moreover have "fl64 a \<le> a" using assms by (intro fl64_le [of a a E m]) simp_all
  ultimately show ?thesis by simp
qed

lemma fl64_of_int:
  assumes "\<bar>k\<bar> < 2 ^ 53"
  shows "fl64 (of_int k) = of_int k"
proof (rule fl64_exact [where E = 52 and m = k])
  have "\<bar>of_int k :: real\<bar> = of_int \<bar>k\<bar>" by simp
  also have "\<dots> < of_int (2 ^ 53)" using assms by (simp only: of_int_less_iff)
  finally show "\<bar>of_int k :: real\<bar> < 2 powi (52 + 1)" by simp
  show "minExponent \<le> 52" by (simp add: minExponent_def)
  show "(of_int k :: real) = of_int k * 2 powi (52 - 52)" by simp
qed

lemma fl64_below_one:
  assumes "fl64 r = r" and "r < 1"
  shows "r \<le> 1 - 2 powi (- 53)"
proof (cases "1 / 2 \<le> r")
  case False
  then show ?thesis by simp
next
  case True
  have "(2::real) powi (- 1) \<le> \<bar>r\<bar>" using True by (simp add: power_int_minus)
  moreover have "\<bar>r\<bar> < 2 powi (- 1 + 1)" using True assms(2) by simp
  moreover have "minExponent \<le> - 1" by (simp add: minExponent_def)
  ultimately have ev: "fl64 r = of_int (roundTiesToEven (r / 2 powi (- 1 - 52))) * 2 powi (- 1 - 52)"
    by (rule fl64_eval)
  define n where "n = roundTiesToEven (r / 2 powi (- 1 - 52))"
  have e: "- 1 - 52 = (- 53 :: int)" by simp
  have n: "r = of_int n * 2 powi (- 53)"
    using ev assms(1) unfolding n_def e by simp
  have p: "(2::real) powi (- 53) = 1 / 2 ^ 53" by (simp only: power_int_minus_divide power_int_numeral)
  have "of_int n * (1 / 2 ^ 53) < (1::real)" using n assms(2) unfolding p by simp
  then have "(of_int n :: real) < 2 ^ 53" by (simp add: field_simps)
  then have "(of_int n :: real) < of_int (2 ^ 53)" by simp
  then have "n < 2 ^ 53" by (simp only: of_int_less_iff)
  then have "n \<le> 2 ^ 53 - 1" by simp
  then have "(of_int n :: real) \<le> of_int (2 ^ 53 - 1)" by (simp only: of_int_le_iff)
  then have "(of_int n :: real) \<le> 2 ^ 53 - 1" by simp
  then have "of_int n * (1 / 2 ^ 53) \<le> (1::real) - 1 / 2 ^ 53" by (simp add: field_simps)
  then show ?thesis unfolding n p .
qed

lemma fl64_numeral:
  "(numeral n :: int) < 2 ^ 53 \<Longrightarrow> fl64 (numeral n) = numeral n"
  using fl64_of_int [of "numeral n"] by simp

lemma fl64_neg_numeral:
  "(numeral n :: int) < 2 ^ 53 \<Longrightarrow> fl64 (- numeral n) = - numeral n"
  using fl64_of_int [of "- numeral n"] by simp

lemma fl64_one: "fl64 1 = 1"
  using fl64_of_int [of 1] by simp

lemma fl64_of_nat: "n < 2 ^ 53 \<Longrightarrow> fl64 (real n) = real n"
  using fl64_of_int [of "int n"] by simp

text \<open>The literals of the score expression.\<close>

lemma fl64_literals:
  "fl64 0.1 = 3602879701896397 / 36028797018963968"
  "fl64 0.6 = 5404319552844595 / 9007199254740992"
  "fl64 0.3 = 5404319552844595 / 18014398509481984"
proof -
  show "fl64 0.1 = 3602879701896397 / 36028797018963968"
    by (subst fl64_eval [where e = "- 4"])
       (simp_all add: minExponent_def roundTiesToEven_def Let_def)
  show "fl64 0.6 = 5404319552844595 / 9007199254740992"
    by (subst fl64_eval [where e = "- 1"])
       (simp_all add: minExponent_def roundTiesToEven_def Let_def)
  show "fl64 0.3 = 5404319552844595 / 18014398509481984"
    by (subst fl64_eval [where e = "- 2"])
       (simp_all add: minExponent_def roundTiesToEven_def Let_def)
qed

subsection \<open>Substring search\<close>

lemma includes_str_iff: "includes_str s k \<longleftrightarrow> (\<exists>pre post. s = pre @ k @ post)"
proof (induction s)
  case Nil
  then show ?case by auto
next
  case (Cons c cs)
  show ?case
  proof
    assume "includes_str (c # cs) k"
    then consider "take (length k) (c # cs) = k" | "includes_str cs k" by auto
    then show "\<exists>pre post. c # cs = pre @ k @ post"
    proof cases
      case 1
      then have "c # cs = [] @ k @ drop (length k) (c # cs)"
        by (metis append_Nil append_take_drop_id)
      then show ?thesis by blast
    next
      case 2
      then obtain pre post where "cs = pre @ k @ post" using Cons.IH by blast
      then have "c # cs = (c # pre) @ k @ post" by simp
      then show ?thesis by blast
    qed
  next
    assume "\<exists>pre post. c # cs = pre @ k @ post"
    then obtain pre post where eq: "c # cs = pre @ k @ post" by blast
    show "includes_str (c # cs) k"
    proof (cases pre)
      case Nil
      then have "take (length k) (c # cs) = k" using eq by (metis append_Nil append_eq_conv_conj)
      then show ?thesis by simp
    next
      case (Cons p pre')
      then have "cs = pre' @ k @ post" using eq by simp
      then have "includes_str cs k" using Cons.IH by blast
      then show ?thesis by simp
    qed
  qed
qed
subsection \<open>Vehicle Classifier Adapter\<close>

lemma firstIncluded_first:
  "\<forall>(k', v') \<in> set pre. \<not> includes_str l k' \<Longrightarrow> includes_str l k \<Longrightarrow>
   firstIncluded l (pre @ (k, v) # post) = Some v"
  by (induction pre) auto

lemma firstIncluded_none:
  "\<forall>(k, v) \<in> set es. \<not> includes_str l k \<Longrightarrow> firstIncluded l es = None"
  by (induction es) auto

text \<open>
  C7. The table of \<^verbatim>\<open>mapClassToVehicleType\<close> is the ordered table of the
  specification, with lower-case keys. A label is lower-cased and mapped to the value of
  the first key of the table that occurs in it as a substring, and to \<open>car\<close> when no key
  occurs in it. "Pickup Truck" gives truck, "Scooter-X1" gives motorcycle and "Golf Cart"
  gives car. Two labels that differ only in the case of their letters map alike.
\<close>

theorem C7_vehicle_classifier:
  "classMapping =
     [(''car'', ''car''), (''sedan'', ''car''), (''hatchback'', ''car''), (''suv'', ''car''),
      (''truck'', ''truck''), (''pickup'', ''truck''), (''bus'', ''bus''),
      (''motorcycle'', ''motorcycle''), (''motorbike'', ''motorcycle''),
      (''bike'', ''motorcycle''), (''scooter'', ''motorcycle''),
      (''van'', ''van''), (''minivan'', ''van'')]
   \<and> (\<forall>(k, v) \<in> set classMapping. toLowerCase k = k)
   \<and> (classMapping = pre @ (key, val) # post
        \<and> (\<exists>a b. toLowerCase label = a @ key @ b)
        \<and> (\<forall>(k, v) \<in> set pre. \<not> (\<exists>a b. toLowerCase label = a @ k @ b))
      \<longrightarrow> mapClassToVehicleType label = val)
   \<and> ((\<forall>(k, v) \<in> set classMapping. \<not> (\<exists>a b. toLowerCase label = a @ k @ b))
      \<longrightarrow> mapClassToVehicleType label = ''car'')
   \<and> mapClassToVehicleType ''Pickup Truck'' = ''truck''
   \<and> mapClassToVehicleType ''Scooter-X1'' = ''motorcycle''
   \<and> mapClassToVehicleType ''Golf Cart'' = ''car''
   \<and> (toLowerCase label = toLowerCase label'
      \<longrightarrow> mapClassToVehicleType label = mapClassToVehicleType label')"
proof (intro conjI impI)
  show "classMapping =
     [(''car'', ''car''), (''sedan'', ''car''), (''hatchback'', ''car''), (''suv'', ''car''),
      (''truck'', ''truck''), (''pickup'', ''truck''), (''bus'', ''bus''),
      (''motorcycle'', ''motorcycle''), (''motorbike'', ''motorcycle''),
      (''bike'', ''motorcycle''), (''scooter'', ''motorcycle''),
      (''van'', ''van''), (''minivan'', ''van'')]"
    by (simp add: classMapping_def)
  show "\<forall>(k, v) \<in> set classMapping. toLowerCase k = k"
    by code_simp
  show "mapClassToVehicleType ''Pickup Truck'' = ''truck''" by code_simp
  show "mapClassToVehicleType ''Scooter-X1'' = ''motorcycle''" by code_simp
  show "mapClassToVehicleType ''Golf Cart'' = ''car''" by code_simp
next
  assume h: "classMapping = pre @ (key, val) # post
        \<and> (\<exists>a b. toLowerCase label = a @ key @ b)
        \<and> (\<forall>(k, v) \<in> set pre. \<not> (\<exists>a b. toLowerCase label = a @ k @ b))"
  then have "firstIncluded (toLowerCase label) (pre @ (key, val) # post) = Some val"
    by (intro firstIncluded_first) (auto simp: includes_str_iff)
  then show "mapClassToVehicleType label = val"
    using h by (simp add: mapClassToVehicleType_def)
next
  assume "\<forall>(k, v) \<in> set classMapping. \<not> (\<exists>a b. toLowerCase label = a @ k @ b)"
  then have "firstIncluded (toLowerCase label) classMapping = None"
    by (intro firstIncluded_none) (auto simp: includes_str_iff)
  then show "mapClassToVehicleType label = ''car''"
    by (simp add: mapClassToVehicleType_def)
next
  assume "toLowerCase label = toLowerCase label'"
  then show "mapClassToVehicleType label = mapClassToVehicleType label'"
    by (simp add: mapClassToVehicleType_def)
qed

theorem C7_vehicle_classifier_witness:
  "classMapping = take 6 classMapping @ (''bus'', ''bus'') # drop 7 classMapping
   \<and> includes_str (toLowerCase ''School BUS'') ''bus''
   \<and> list_all (\<lambda>(k, v). \<not> includes_str (toLowerCase ''School BUS'') k) (take 6 classMapping)
   \<and> mapClassToVehicleType ''School BUS'' = ''bus''"
proof -
  have split: "classMapping = take 6 classMapping @ (''bus'', ''bus'') # drop 7 classMapping"
    by (simp add: classMapping_def)
  have yes: "includes_str (toLowerCase ''School BUS'') ''bus''"
    by code_simp
  have no: "list_all (\<lambda>(k, v). \<not> includes_str (toLowerCase ''School BUS'') k) (take 6 classMapping)"
    by code_simp
  have "mapClassToVehicleType ''School BUS'' = ''bus''"
    using C7_vehicle_classifier [of "take 6 classMapping" "''bus''" "''bus''"
        "drop 7 classMapping" "''School BUS''"] split yes no
    unfolding includes_str_iff list_all_iff by blast
  with split yes no show ?thesis by blast
qed
subsection \<open>Allocation Policy Engine\<close>

lemma reduce_Cons: "reduce f (x # xs) = Some (foldl f x xs)"
  by (simp add: reduce_def)

lemma foldl_closerSlot_first_min:
  "\<exists>pre post. x # xs = pre @ foldl closerSlot x xs # post
     \<and> (\<forall>t \<in> set pre. distance_from_entrance (foldl closerSlot x xs) < distance_from_entrance t)
     \<and> (\<forall>t \<in> set post. distance_from_entrance (foldl closerSlot x xs) \<le> distance_from_entrance t)"
proof (induction xs rule: rev_induct)
  case Nil
  have "[x] = [] @ x # []" by simp
  then show ?case by force
next
  case (snoc y xs)
  let ?r = "foldl closerSlot x xs"
  from snoc obtain pre post where dec: "x # xs = pre @ ?r # post"
    and pre: "\<forall>t \<in> set pre. distance_from_entrance ?r < distance_from_entrance t"
    and post: "\<forall>t \<in> set post. distance_from_entrance ?r \<le> distance_from_entrance t"
    by blast
  show ?case
  proof (cases "distance_from_entrance y < distance_from_entrance ?r")
    case True
    then have res: "foldl closerSlot x (xs @ [y]) = y" by (simp add: closerSlot_def)
    have "x # xs @ [y] = (x # xs) @ y # []" by simp
    moreover have "\<forall>t \<in> set (x # xs). distance_from_entrance y < distance_from_entrance t"
    proof
      fix t assume "t \<in> set (x # xs)"
      then have "t \<in> set pre \<or> t = ?r \<or> t \<in> set post" using dec by (metis Un_iff set_ConsD set_append)
      then show "distance_from_entrance y < distance_from_entrance t"
        using True pre post by fastforce
    qed
    ultimately show ?thesis unfolding res by (metis empty_iff list.set(1))
  next
    case False
    then have res: "foldl closerSlot x (xs @ [y]) = ?r" by (simp add: closerSlot_def)
    have "x # xs @ [y] = pre @ ?r # (post @ [y])" using dec by simp
    moreover have "\<forall>t \<in> set (post @ [y]). distance_from_entrance ?r \<le> distance_from_entrance t"
      using post False by auto
    ultimately show ?thesis unfolding res using pre by blast
  qed
qed

lemma foldl_furtherSlot_first_max:
  "\<exists>pre post. x # xs = pre @ foldl furtherSlot x xs # post
     \<and> (\<forall>t \<in> set pre. distance_from_entrance t < distance_from_entrance (foldl furtherSlot x xs))
     \<and> (\<forall>t \<in> set post. distance_from_entrance t \<le> distance_from_entrance (foldl furtherSlot x xs))"
proof (induction xs rule: rev_induct)
  case Nil
  have "[x] = [] @ x # []" by simp
  then show ?case by force
next
  case (snoc y xs)
  let ?r = "foldl furtherSlot x xs"
  from snoc obtain pre post where dec: "x # xs = pre @ ?r # post"
    and pre: "\<forall>t \<in> set pre. distance_from_entrance t < distance_from_entrance ?r"
    and post: "\<forall>t \<in> set post. distance_from_entrance t \<le> distance_from_entrance ?r"
    by blast
  show ?case
  proof (cases "distance_from_entrance y > distance_from_entrance ?r")
    case True
    then have res: "foldl furtherSlot x (xs @ [y]) = y" by (simp add: furtherSlot_def)
    have "x # xs @ [y] = (x # xs) @ y # []" by simp
    moreover have "\<forall>t \<in> set (x # xs). distance_from_entrance t < distance_from_entrance y"
    proof
      fix t assume "t \<in> set (x # xs)"
      then have "t \<in> set pre \<or> t = ?r \<or> t \<in> set post" using dec by (metis Un_iff set_ConsD set_append)
      then show "distance_from_entrance t < distance_from_entrance y"
        using True pre post by fastforce
    qed
    ultimately show ?thesis unfolding res by (metis empty_iff list.set(1))
  next
    case False
    then have res: "foldl furtherSlot x (xs @ [y]) = ?r" by (simp add: furtherSlot_def)
    have "x # xs @ [y] = pre @ ?r # (post @ [y])" using dec by simp
    moreover have "\<forall>t \<in> set (post @ [y]). distance_from_entrance t \<le> distance_from_entrance ?r"
      using post False by auto
    ultimately show ?thesis unfolding res using pre by blast
  qed
qed

lemma reduce_closerSlot:
  assumes "es \<noteq> []"
  shows "\<exists>pre s post. es = pre @ s # post \<and> reduce closerSlot es = Some s
     \<and> (\<forall>t \<in> set pre. distance_from_entrance s < distance_from_entrance t)
     \<and> (\<forall>t \<in> set post. distance_from_entrance s \<le> distance_from_entrance t)"
proof -
  from assms obtain x xs where es: "es = x # xs" by (cases es) auto
  show ?thesis
    unfolding es reduce_Cons using foldl_closerSlot_first_min [of x xs] by blast
qed

lemma reduce_furtherSlot:
  assumes "es \<noteq> []"
  shows "\<exists>pre s post. es = pre @ s # post \<and> reduce furtherSlot es = Some s
     \<and> (\<forall>t \<in> set pre. distance_from_entrance t < distance_from_entrance s)
     \<and> (\<forall>t \<in> set post. distance_from_entrance t \<le> distance_from_entrance s)"
proof -
  from assms obtain x xs where es: "es = x # xs" by (cases es) auto
  show ?thesis
    unfolding es reduce_Cons using foldl_furtherSlot_first_max [of x xs] by blast
qed

lemma filter_split_at:
  "filter q es = pre' @ s # post' \<Longrightarrow>
   \<exists>pre post. es = pre @ s # post \<and> filter q pre = pre' \<and> filter q post = post' \<and> q s"
proof (induction pre' arbitrary: es)
  case Nil
  then obtain us vs where "es = us @ s # vs" "\<forall>u \<in> set us. \<not> q u" "q s" "post' = filter q vs"
    by (auto simp: filter_eq_Cons_iff)
  then have "es = us @ s # vs \<and> filter q us = [] \<and> filter q vs = post' \<and> q s" by simp
  then show ?case by blast
next
  case (Cons a pre')
  then obtain us vs where es: "es = us @ a # vs" and us: "\<forall>u \<in> set us. \<not> q u" and qa: "q a"
    and vs: "pre' @ s # post' = filter q vs"
    by (auto simp: filter_eq_Cons_iff)
  from Cons.IH [of vs] vs obtain p post where vs': "vs = p @ s # post"
    and p: "filter q p = pre'" and post: "filter q post = post'" and qs: "q s"
    by metis
  have "es = (us @ a # p) @ s # post" using es vs' by simp
  moreover have "filter q (us @ a # p) = a # pre'" using us qa p by simp
  ultimately show ?case using post qs by blast
qed

lemma selectBestSlot_closest:
  "selectBestSlot ''car'' es =
     (case reduce closerSlot es of
        None \<Rightarrow> Inl ''Reduce of empty array with no initial value''
      | Some s \<Rightarrow> Inr (Some s))"
  by (simp add: selectBestSlot_def vehicleRules_def)

lemma selectBestSlot_furthest:
  "selectBestSlot ''motorcycle'' es =
     (case reduce furtherSlot es of
        None \<Rightarrow> Inl ''Reduce of empty array with no initial value''
      | Some s \<Rightarrow> Inr (Some s))"
  by (simp add: selectBestSlot_def vehicleRules_def)

lemma selectBestSlot_corner_edge:
  "vt \<in> {''truck'', ''bus'', ''van''} \<Longrightarrow>
   selectBestSlot vt es =
     (if filter (\<lambda>s. is_corner s \<or> is_edge s) es \<noteq> [] then
        (case reduce furtherSlot (filter (\<lambda>s. is_corner s \<or> is_edge s) es) of
           None \<Rightarrow> Inl ''Reduce of empty array with no initial value''
         | Some s \<Rightarrow> Inr (Some s))
      else Inr (case es of [] \<Rightarrow> None | s # _ \<Rightarrow> Some s))"
  by (auto simp: selectBestSlot_def vehicleRules_def Let_def)
text \<open>
  C1. On a non-empty list of empty slots the allocation returns one slot of the list:
  for \<open>car\<close> a slot of minimum distance from the entrance, for \<open>motorcycle\<close> one of
  maximum distance, for \<open>truck\<close>, \<open>bus\<close> and \<open>van\<close> a corner or edge slot of maximum
  distance among the corner and edge slots, or the first slot of the list when none is
  corner or edge. Every slot in front of the chosen one compares strictly worse on the
  criterion, so on a tie the first slot of the list wins.
\<close>

theorem C1_allocation_policy:
  assumes "emptySlots \<noteq> []"
  shows
    "(vt = ''car'' \<longrightarrow>
        (\<exists>pre s post. emptySlots = pre @ s # post
           \<and> selectBestSlot vt emptySlots = Inr (Some s)
           \<and> (\<forall>t \<in> set pre. distance_from_entrance s < distance_from_entrance t)
           \<and> (\<forall>t \<in> set post. distance_from_entrance s \<le> distance_from_entrance t)))
     \<and> (vt = ''motorcycle'' \<longrightarrow>
        (\<exists>pre s post. emptySlots = pre @ s # post
           \<and> selectBestSlot vt emptySlots = Inr (Some s)
           \<and> (\<forall>t \<in> set pre. distance_from_entrance t < distance_from_entrance s)
           \<and> (\<forall>t \<in> set post. distance_from_entrance t \<le> distance_from_entrance s)))
     \<and> (vt \<in> {''truck'', ''bus'', ''van''} \<longrightarrow>
        (if \<exists>t \<in> set emptySlots. is_corner t \<or> is_edge t then
           \<exists>pre s post. emptySlots = pre @ s # post
             \<and> selectBestSlot vt emptySlots = Inr (Some s)
             \<and> (is_corner s \<or> is_edge s)
             \<and> (\<forall>t \<in> set pre. is_corner t \<or> is_edge t \<longrightarrow>
                   distance_from_entrance t < distance_from_entrance s)
             \<and> (\<forall>t \<in> set post. is_corner t \<or> is_edge t \<longrightarrow>
                   distance_from_entrance t \<le> distance_from_entrance s)
         else selectBestSlot vt emptySlots = Inr (Some (hd emptySlots))))"
proof (intro conjI impI)
  assume "vt = ''car''"
  then show "\<exists>pre s post. emptySlots = pre @ s # post
           \<and> selectBestSlot vt emptySlots = Inr (Some s)
           \<and> (\<forall>t \<in> set pre. distance_from_entrance s < distance_from_entrance t)
           \<and> (\<forall>t \<in> set post. distance_from_entrance s \<le> distance_from_entrance t)"
    using reduce_closerSlot [OF assms] by (fastforce simp: selectBestSlot_closest)
next
  assume "vt = ''motorcycle''"
  then show "\<exists>pre s post. emptySlots = pre @ s # post
           \<and> selectBestSlot vt emptySlots = Inr (Some s)
           \<and> (\<forall>t \<in> set pre. distance_from_entrance t < distance_from_entrance s)
           \<and> (\<forall>t \<in> set post. distance_from_entrance t \<le> distance_from_entrance s)"
    using reduce_furtherSlot [OF assms] by (fastforce simp: selectBestSlot_furthest)
next
  let ?q = "\<lambda>s. is_corner s \<or> is_edge s"
  assume vt: "vt \<in> {''truck'', ''bus'', ''van''}"
  show "if \<exists>t \<in> set emptySlots. is_corner t \<or> is_edge t then
           \<exists>pre s post. emptySlots = pre @ s # post
             \<and> selectBestSlot vt emptySlots = Inr (Some s)
             \<and> (is_corner s \<or> is_edge s)
             \<and> (\<forall>t \<in> set pre. is_corner t \<or> is_edge t \<longrightarrow>
                   distance_from_entrance t < distance_from_entrance s)
             \<and> (\<forall>t \<in> set post. is_corner t \<or> is_edge t \<longrightarrow>
                   distance_from_entrance t \<le> distance_from_entrance s)
         else selectBestSlot vt emptySlots = Inr (Some (hd emptySlots))"
  proof (cases "\<exists>t \<in> set emptySlots. ?q t")
    case True
    then have ne: "filter ?q emptySlots \<noteq> []" by (simp add: filter_empty_conv)
    from reduce_furtherSlot [OF ne] obtain pre' s post'
      where dec': "filter ?q emptySlots = pre' @ s # post'"
        and red: "reduce furtherSlot (filter ?q emptySlots) = Some s"
        and pre': "\<forall>t \<in> set pre'. distance_from_entrance t < distance_from_entrance s"
        and post': "\<forall>t \<in> set post'. distance_from_entrance t \<le> distance_from_entrance s"
      by blast
    from filter_split_at [OF dec'] obtain pre post
      where dec: "emptySlots = pre @ s # post" and fpre: "filter ?q pre = pre'"
        and fpost: "filter ?q post = post'" and qs: "?q s"
      by blast
    have res: "selectBestSlot vt emptySlots = Inr (Some s)"
      using selectBestSlot_corner_edge [OF vt, of emptySlots] ne red by simp
    have "\<forall>t \<in> set pre. ?q t \<longrightarrow> distance_from_entrance t < distance_from_entrance s"
      using pre' fpre by auto
    moreover have "\<forall>t \<in> set post. ?q t \<longrightarrow> distance_from_entrance t \<le> distance_from_entrance s"
      using post' fpost by auto
    ultimately show ?thesis using True dec res qs by auto
  next
    case False
    then have "filter ?q emptySlots = []" by (simp add: filter_empty_conv)
    then have "selectBestSlot vt emptySlots = Inr (Some (hd emptySlots))"
      using selectBestSlot_corner_edge [OF vt, of emptySlots] assms
      by (cases emptySlots) auto
    then show ?thesis using False by auto
  qed
qed

theorem C1_allocation_policy_witness:
  "[exampleSlot 1 50 False, exampleSlot 2 120 False, exampleSlot 3 80 False] \<noteq> []
   \<and> selectBestSlot ''car'' [exampleSlot 1 50 False, exampleSlot 2 120 False, exampleSlot 3 80 False]
       = Inr (Some (exampleSlot 1 50 False))
   \<and> selectBestSlot ''motorcycle'' [exampleSlot 1 50 False, exampleSlot 2 120 False, exampleSlot 3 80 False]
       = Inr (Some (exampleSlot 2 120 False))
   \<and> selectBestSlot ''truck'' [exampleSlot 1 50 False, exampleSlot 2 120 False, exampleSlot 3 80 False]
       = Inr (Some (exampleSlot 1 50 False))
   \<and> (\<exists>pre post. [exampleSlot 1 50 True, exampleSlot 2 120 False, exampleSlot 3 80 True,
                    exampleSlot 4 80 True]
         = pre @ exampleSlot 3 80 True # post
       \<and> selectBestSlot ''van'' [exampleSlot 1 50 True, exampleSlot 2 120 False, exampleSlot 3 80 True,
                    exampleSlot 4 80 True]
         = Inr (Some (exampleSlot 3 80 True)))"
proof -
  let ?es = "[exampleSlot 1 50 False, exampleSlot 2 120 False, exampleSlot 3 80 False]"
  let ?fs = "[exampleSlot 1 50 True, exampleSlot 2 120 False, exampleSlot 3 80 True,
              exampleSlot 4 80 True]"
  have ne: "?es \<noteq> []" by simp
  have nf: "?fs \<noteq> []" by simp
  have none: "\<not> (\<exists>t \<in> set ?es. is_corner t \<or> is_edge t)"
    by (simp add: exampleSlot_def)
  have truck: "selectBestSlot ''truck'' ?es = Inr (Some (exampleSlot 1 50 False))"
    using C1_allocation_policy [OF ne, of "''truck''"] none by simp
  have car: "selectBestSlot ''car'' ?es = Inr (Some (exampleSlot 1 50 False))"
    by (simp add: selectBestSlot_closest reduce_def closerSlot_def exampleSlot_def)
  have moto: "selectBestSlot ''motorcycle'' ?es = Inr (Some (exampleSlot 2 120 False))"
    by (simp add: selectBestSlot_furthest reduce_def furtherSlot_def exampleSlot_def)
  have some: "\<exists>t \<in> set ?fs. is_corner t \<or> is_edge t"
    by (simp add: exampleSlot_def)
  have van: "selectBestSlot ''van'' ?fs = Inr (Some (exampleSlot 3 80 True))"
    by (simp add: selectBestSlot_def vehicleRules_def reduce_def furtherSlot_def exampleSlot_def)
  from C1_allocation_policy [OF nf, of "''van''"] some van
  obtain pre s post where "?fs = pre @ s # post" "s = exampleSlot 3 80 True"
    by auto
  then have "\<exists>pre post. ?fs = pre @ exampleSlot 3 80 True # post" by blast
  with ne car moto truck van show ?thesis by blast
qed

subsection \<open>Path Scoring and Selector\<close>

lemma foldl_betterPath_first_min:
  "\<exists>pre post. x # xs = pre @ foldl betterPath x xs # post
     \<and> (\<forall>t \<in> set pre. scoreOf (foldl betterPath x xs) < scoreOf t)
     \<and> (\<forall>t \<in> set post. scoreOf (foldl betterPath x xs) \<le> scoreOf t)"
proof (induction xs rule: rev_induct)
  case Nil
  have "[x] = [] @ x # []" by simp
  then show ?case by force
next
  case (snoc y xs)
  let ?r = "foldl betterPath x xs"
  from snoc obtain pre post where dec: "x # xs = pre @ ?r # post"
    and pre: "\<forall>t \<in> set pre. scoreOf ?r < scoreOf t"
    and post: "\<forall>t \<in> set post. scoreOf ?r \<le> scoreOf t"
    by blast
  show ?case
  proof (cases "scoreOf y < scoreOf ?r")
    case True
    then have res: "foldl betterPath x (xs @ [y]) = y" by (simp add: betterPath_def)
    have "x # xs @ [y] = (x # xs) @ y # []" by simp
    moreover have "\<forall>t \<in> set (x # xs). scoreOf y < scoreOf t"
    proof
      fix t assume "t \<in> set (x # xs)"
      then have "t \<in> set pre \<or> t = ?r \<or> t \<in> set post" using dec by (metis Un_iff set_ConsD set_append)
      then show "scoreOf y < scoreOf t"
        using True pre post by fastforce
    qed
    ultimately show ?thesis unfolding res by (metis empty_iff list.set(1))
  next
    case False
    then have res: "foldl betterPath x (xs @ [y]) = ?r" by (simp add: betterPath_def)
    have "x # xs @ [y] = pre @ ?r # (post @ [y])" using dec by simp
    moreover have "\<forall>t \<in> set (post @ [y]). scoreOf ?r \<le> scoreOf t"
      using post False by auto
    ultimately show ?thesis unfolding res using pre by blast
  qed
qed

lemma scorePath_populated:
  "intensities (path_id p) = Some v \<Longrightarrow>
   scorePath intensities p =
     p\<lparr>vehicleIntensity := Some v,
       score := Some (fl64 (fl64 (fl64 (distance p * fl64 0.1)
                                   + fl64 (real_of_int (tJunctions p) * fl64 0.6))
                             + fl64 (real_of_int v * fl64 0.3)))\<rparr>"
  by (simp add: scorePath_def weightedScore_def)

text \<open>Scores of the example paths, rounded step by step.\<close>

lemma weightedScore_65_1_20: "weightedScore 65 1 20 = 7374644389819187 / 562949953421312"
proof -
  have p1: "fl64 (65 * (3602879701896397 / 36028797018963968)) = 13 / 2"
    by (subst fl64_eval [where e = 2])
       (simp_all add: minExponent_def roundTiesToEven_def Let_def)
  have p2: "fl64 (real_of_int 1 * (5404319552844595 / 9007199254740992)) = 5404319552844595 / 9007199254740992"
    by (subst fl64_eval [where e = "- 1"])
       (simp_all add: minExponent_def roundTiesToEven_def Let_def)
  have p3: "fl64 (real_of_int 20 * (5404319552844595 / 18014398509481984)) = 6"
    by (subst fl64_eval [where e = 2])
       (simp_all add: minExponent_def roundTiesToEven_def Let_def)
  have s1: "fl64 (13 / 2 + 5404319552844595 / 9007199254740992) = 3996944669291315 / 562949953421312"
    by (subst fl64_eval [where e = 2])
       (simp_all add: minExponent_def roundTiesToEven_def Let_def)
  have s2: "fl64 (3996944669291315 / 562949953421312 + 6) = 7374644389819187 / 562949953421312"
    by (subst fl64_eval [where e = 3])
       (simp_all add: minExponent_def roundTiesToEven_def Let_def)
  show ?thesis
    unfolding weightedScore_def fl64_literals p1 p2 p3 s1 s2 ..
qed

lemma weightedScore_90_3_60: "weightedScore 90 3 60 = 8106479329266893 / 281474976710656"
proof -
  have p1: "fl64 (90 * (3602879701896397 / 36028797018963968)) = 9"
    by (subst fl64_eval [where e = 3])
       (simp_all add: minExponent_def roundTiesToEven_def Let_def)
  have p2: "fl64 (real_of_int 3 * (5404319552844595 / 9007199254740992)) = 2026619832316723 / 1125899906842624"
    by (subst fl64_eval [where e = 0])
       (simp_all add: minExponent_def roundTiesToEven_def Let_def)
  have p3: "fl64 (real_of_int 60 * (5404319552844595 / 18014398509481984)) = 18"
    by (subst fl64_eval [where e = 4])
       (simp_all add: minExponent_def roundTiesToEven_def Let_def)
  have s1: "fl64 (9 + 2026619832316723 / 1125899906842624) = 3039929748475085 / 281474976710656"
    by (subst fl64_eval [where e = 3])
       (simp_all add: minExponent_def roundTiesToEven_def Let_def)
  have s2: "fl64 (3039929748475085 / 281474976710656 + 18) = 8106479329266893 / 281474976710656"
    by (subst fl64_eval [where e = 4])
       (simp_all add: minExponent_def roundTiesToEven_def Let_def)
  show ?thesis
    unfolding weightedScore_def fl64_literals p1 p2 p3 s1 s2 ..
qed

lemma weightedScore_70_1_30: "weightedScore 70 1 30 = 2336242306698445 / 140737488355328"
proof -
  have p1: "fl64 (70 * (3602879701896397 / 36028797018963968)) = 7"
    by (subst fl64_eval [where e = 2])
       (simp_all add: minExponent_def roundTiesToEven_def Let_def)
  have p2: "fl64 (real_of_int 1 * (5404319552844595 / 9007199254740992)) = 5404319552844595 / 9007199254740992"
    by (subst fl64_eval [where e = "- 1"])
       (simp_all add: minExponent_def roundTiesToEven_def Let_def)
  have p3: "fl64 (real_of_int 30 * (5404319552844595 / 18014398509481984)) = 9"
    by (subst fl64_eval [where e = 3])
       (simp_all add: minExponent_def roundTiesToEven_def Let_def)
  have s1: "fl64 (7 + 5404319552844595 / 9007199254740992) = 4278419646001971 / 562949953421312"
    by (subst fl64_eval [where e = 2])
       (simp_all add: minExponent_def roundTiesToEven_def Let_def)
  have s2: "fl64 (4278419646001971 / 562949953421312 + 9) = 2336242306698445 / 140737488355328"
    by (subst fl64_eval [where e = 4])
       (simp_all add: minExponent_def roundTiesToEven_def Let_def)
  show ?thesis
    unfolding weightedScore_def fl64_literals p1 p2 p3 s1 s2 ..
qed

lemma weightedScore_100_2_18: "weightedScore 100 2 18 = 4672484613396889 / 281474976710656"
proof -
  have p1: "fl64 (100 * (3602879701896397 / 36028797018963968)) = 10"
    by (subst fl64_eval [where e = 3])
       (simp_all add: minExponent_def roundTiesToEven_def Let_def)
  have p2: "fl64 (real_of_int 2 * (5404319552844595 / 9007199254740992)) = 5404319552844595 / 4503599627370496"
    by (subst fl64_eval [where e = 0])
       (simp_all add: minExponent_def roundTiesToEven_def Let_def)
  have p3: "fl64 (real_of_int 18 * (5404319552844595 / 18014398509481984)) = 6079859496950169 / 1125899906842624"
    by (subst fl64_eval [where e = 2])
       (simp_all add: minExponent_def roundTiesToEven_def Let_def)
  have s1: "fl64 (10 + 5404319552844595 / 4503599627370496) = 3152519739159347 / 281474976710656"
    by (subst fl64_eval [where e = 3])
       (simp_all add: minExponent_def roundTiesToEven_def Let_def)
  have s2: "fl64 (3152519739159347 / 281474976710656 + 6079859496950169 / 1125899906842624) = 4672484613396889 / 281474976710656"
    by (subst fl64_eval [where e = 4])
       (simp_all add: minExponent_def roundTiesToEven_def Let_def)
  show ?thesis
    unfolding weightedScore_def fl64_literals p1 p2 p3 s1 s2 ..
qed

lemma fl64_13_1: "fl64 13.1 = 7374644389819187 / 562949953421312"
  by (subst fl64_eval [where e = 3])
     (simp_all add: minExponent_def roundTiesToEven_def Let_def)

lemma fl64_28_8: "fl64 28.8 = 8106479329266893 / 281474976710656"
  by (subst fl64_eval [where e = 4])
     (simp_all add: minExponent_def roundTiesToEven_def Let_def)

lemma fl64_16_6: "fl64 16.6 = 2336242306698445 / 140737488355328"
  by (subst fl64_eval [where e = 4])
     (simp_all add: minExponent_def roundTiesToEven_def Let_def)

lemma fl64_68_6: "fl64 68.6 = 2413647925293875 / 35184372088832"
  by (subst fl64_eval [where e = 6])
     (simp_all add: minExponent_def roundTiesToEven_def Let_def)

lemma fl64_46_8: "fl64 46.8 = 3293257227514675 / 70368744177664"
  by (subst fl64_eval [where e = 5])
     (simp_all add: minExponent_def roundTiesToEven_def Let_def)


text \<open>
  C2. When the path list is not empty and every path has an intensity, each path gets the
  score \<open>distance * 0.1 + tJunctions * 0.6 + intensity * 0.3\<close> as double arithmetic
  computes it, every product and sum rounded, and the optimal path is a scored path of
  minimum computed score; every path in front of it has a strictly greater computed
  score, so the first path wins a tie of computed scores.
\<close>

theorem C2_path_scoring:
  assumes "pathsData st \<noteq> []"
    and "\<forall>p \<in> set (pathsData st). pathVehicleIntensities st (path_id p) \<noteq> None"
  shows
    "pathsWithScores st =
       map (\<lambda>p. p\<lparr>vehicleIntensity := pathVehicleIntensities st (path_id p),
                  score := Some (fl64 (fl64 (fl64 (distance p * fl64 0.1)
                      + fl64 (real_of_int (tJunctions p) * fl64 0.6))
                    + fl64 (real_of_int (the (pathVehicleIntensities st (path_id p))) * fl64 0.3)))\<rparr>)
         (pathsData st)
     \<and> (\<exists>pre b post.
          pathsWithScores st = pre @ b # post
          \<and> calculateOptimalPath st = Some (st\<lparr>optimalPath := Some b, currentStep := 5\<rparr>)
          \<and> (\<forall>t \<in> set pre. the (score b) < the (score t))
          \<and> (\<forall>t \<in> set post. the (score b) \<le> the (score t)))"
proof
  show eq: "pathsWithScores st =
       map (\<lambda>p. p\<lparr>vehicleIntensity := pathVehicleIntensities st (path_id p),
                  score := Some (fl64 (fl64 (fl64 (distance p * fl64 0.1)
                      + fl64 (real_of_int (tJunctions p) * fl64 0.6))
                    + fl64 (real_of_int (the (pathVehicleIntensities st (path_id p))) * fl64 0.3)))\<rparr>)
         (pathsData st)"
    unfolding pathsWithScores_def
  proof (rule map_cong [OF refl])
    fix p assume "p \<in> set (pathsData st)"
    then obtain v where "pathVehicleIntensities st (path_id p) = Some v"
      using assms(2) by auto
    then show "scorePath (pathVehicleIntensities st) p =
        p\<lparr>vehicleIntensity := pathVehicleIntensities st (path_id p),
          score := Some (fl64 (fl64 (fl64 (distance p * fl64 0.1)
              + fl64 (real_of_int (tJunctions p) * fl64 0.6))
            + fl64 (real_of_int (the (pathVehicleIntensities st (path_id p))) * fl64 0.3)))\<rparr>"
      by (simp add: scorePath_populated)
  qed
  have ne: "pathsWithScores st \<noteq> []"
    using assms(1) by (simp add: pathsWithScores_def)
  then obtain x xs where xs: "pathsWithScores st = x # xs"
    by (cases "pathsWithScores st") auto
  from foldl_betterPath_first_min [of x xs] obtain pre post
    where dec: "pathsWithScores st = pre @ foldl betterPath x xs # post"
      and pre: "\<forall>t \<in> set pre. scoreOf (foldl betterPath x xs) < scoreOf t"
      and post: "\<forall>t \<in> set post. scoreOf (foldl betterPath x xs) \<le> scoreOf t"
    using xs by auto
  have sc: "scoreOf t = the (score t)" if "t \<in> set (pathsWithScores st)" for t
    using that unfolding eq by (auto simp: scoreOf_def)
  have b_in: "foldl betterPath x xs \<in> set (pathsWithScores st)"
    by (subst dec) simp
  have "calculateOptimalPath st
      = Some (st\<lparr>optimalPath := Some (foldl betterPath x xs), currentStep := 5\<rparr>)"
    by (simp add: calculateOptimalPath_def xs reduce_def)
  moreover have "\<forall>t \<in> set pre. the (score (foldl betterPath x xs)) < the (score t)"
  proof
    fix t assume t: "t \<in> set pre"
    then have "t \<in> set (pathsWithScores st)" by (subst dec) simp
    then show "the (score (foldl betterPath x xs)) < the (score t)"
      using pre t sc b_in by metis
  qed
  moreover have "\<forall>t \<in> set post. the (score (foldl betterPath x xs)) \<le> the (score t)"
  proof
    fix t assume t: "t \<in> set post"
    then have "t \<in> set (pathsWithScores st)" by (subst dec) simp
    then show "the (score (foldl betterPath x xs)) \<le> the (score t)"
      using post t sc b_in by metis
  qed
  ultimately show "\<exists>pre b post.
          pathsWithScores st = pre @ b # post
          \<and> calculateOptimalPath st = Some (st\<lparr>optimalPath := Some b, currentStep := 5\<rparr>)
          \<and> (\<forall>t \<in> set pre. the (score b) < the (score t))
          \<and> (\<forall>t \<in> set post. the (score b) \<le> the (score t))"
    using dec by blast
qed

theorem C2_path_scoring_witness:
  "pathsData (exampleSession [examplePath 1 90 3, examplePath 2 65 1, examplePath 3 65 1]
       [(1, 60), (2, 20), (3, 20)]) \<noteq> []
   \<and> list_all (\<lambda>p. pathVehicleIntensities
           (exampleSession [examplePath 1 90 3, examplePath 2 65 1, examplePath 3 65 1]
              [(1, 60), (2, 20), (3, 20)]) (path_id p) \<noteq> None)
       (pathsData (exampleSession [examplePath 1 90 3, examplePath 2 65 1, examplePath 3 65 1]
          [(1, 60), (2, 20), (3, 20)]))
   \<and> map score (pathsWithScores
         (exampleSession [examplePath 1 90 3, examplePath 2 65 1, examplePath 3 65 1]
            [(1, 60), (2, 20), (3, 20)]))
       = [Some (fl64 28.8), Some (fl64 13.1), Some (fl64 13.1)]
   \<and> map_option (map_option path_id \<circ> optimalPath) (calculateOptimalPath
         (exampleSession [examplePath 1 90 3, examplePath 2 65 1, examplePath 3 65 1]
            [(1, 60), (2, 20), (3, 20)]))
       = Some (Some 2)"
proof -
  let ?st = "exampleSession [examplePath 1 90 3, examplePath 2 65 1, examplePath 3 65 1]
       [(1, 60), (2, 20), (3, 20)]"
  have ne: "pathsData ?st \<noteq> []"
    by (simp add: exampleSession_def)
  have pop: "\<forall>p \<in> set (pathsData ?st). pathVehicleIntensities ?st (path_id p) \<noteq> None"
    by (simp add: exampleSession_def examplePath_def)
  have "pathsWithScores ?st =
       map (\<lambda>p. p\<lparr>vehicleIntensity := pathVehicleIntensities ?st (path_id p),
                  score := Some (fl64 (fl64 (fl64 (distance p * fl64 0.1)
                      + fl64 (real_of_int (tJunctions p) * fl64 0.6))
                    + fl64 (real_of_int (the (pathVehicleIntensities ?st (path_id p))) * fl64 0.3)))\<rparr>)
         (pathsData ?st)"
    using C2_path_scoring [OF ne pop] by blast
  then have "map score (pathsWithScores ?st) =
      [Some (weightedScore 90 3 60), Some (weightedScore 65 1 20), Some (weightedScore 65 1 20)]"
    by (simp add: exampleSession_def examplePath_def weightedScore_def)
  then have scores: "map score (pathsWithScores ?st)
      = [Some (fl64 28.8), Some (fl64 13.1), Some (fl64 13.1)]"
    by (simp only: weightedScore_90_3_60 weightedScore_65_1_20 fl64_28_8 fl64_13_1)
  have best: "map_option (map_option path_id \<circ> optimalPath) (calculateOptimalPath ?st)
       = Some (Some 2)"
    by (simp add: calculateOptimalPath_def pathsWithScores_def reduce_def betterPath_def
        scorePath_def scoreOf_def exampleSession_def examplePath_def
        weightedScore_90_3_60 weightedScore_65_1_20)
  from ne pop scores best show ?thesis
    unfolding list_all_iff by blast
qed

text \<open>
  The scores are the computed ones, not the exact values of the formula: for the paths
  with distance 70, one junction, intensity 30 and distance 100, two junctions, intensity
  18 the exact value is 16.6 both times, the computed scores are the doubles 16.6 and
  16.599999999999998, one spacing of doubles apart, and the second path is the optimal one.
\<close>

lemma computed_scores_separate_exact_tie:
  "(70 * 0.1 + 1 * 0.6 + 30 * 0.3 :: real) = 100 * 0.1 + 2 * 0.6 + 18 * 0.3
   \<and> map score (pathsWithScores
         (exampleSession [examplePath 1 70 1, examplePath 2 100 2] [(1, 30), (2, 18)]))
       = [Some (fl64 16.6), Some (fl64 16.6 - 2 powi (- 48))]
   \<and> map score (pathsWithScores
         (exampleSession [examplePath 1 70 1, examplePath 2 100 2] [(1, 30), (2, 18)]))
       \<noteq> [Some (70 * 0.1 + 1 * 0.6 + 30 * 0.3), Some (100 * 0.1 + 2 * 0.6 + 18 * 0.3)]
   \<and> map_option (map_option path_id \<circ> optimalPath) (calculateOptimalPath
         (exampleSession [examplePath 1 70 1, examplePath 2 100 2] [(1, 30), (2, 18)]))
       = Some (Some 2)"
  unfolding fl64_16_6
  by (simp add: calculateOptimalPath_def pathsWithScores_def reduce_def betterPath_def
      scorePath_def scoreOf_def exampleSession_def examplePath_def
      weightedScore_70_1_30 weightedScore_100_2_18)

text \<open>
  C3. For the paths with distance 65, one junction, intensity 20 and distance 90, three
  junctions, intensity 60, the weights 0.1, 0.6 and 0.3 give the scores 13.1 and 28.8
  (the doubles so written), and the first path, of lower score, is the optimal one.
\<close>

theorem C3_example_scores:
  "map score (pathsWithScores
      (exampleSession [examplePath 1 65 1, examplePath 2 90 3] [(1, 20), (2, 60)]))
     = [Some (fl64 13.1), Some (fl64 28.8)]
   \<and> calculateOptimalPath
       (exampleSession [examplePath 1 65 1, examplePath 2 90 3] [(1, 20), (2, 60)])
     = Some ((exampleSession [examplePath 1 65 1, examplePath 2 90 3] [(1, 20), (2, 60)])
         \<lparr>optimalPath := Some ((examplePath 1 65 1)\<lparr>vehicleIntensity := Some 20,
            score := Some (fl64 13.1)\<rparr>),
          currentStep := 5\<rparr>)"
  unfolding fl64_13_1 fl64_28_8
  by (simp add: calculateOptimalPath_def pathsWithScores_def reduce_def betterPath_def
      scorePath_def scoreOf_def exampleSession_def examplePath_def
      weightedScore_65_1_20 weightedScore_90_3_60)

text \<open>
  The scores of these two paths are not 68.6 and 46.8, exactly or as doubles, and the
  optimal path is not the second one.
\<close>

theorem C3_example_scores_refuted:
  "map score (pathsWithScores
      (exampleSession [examplePath 1 65 1, examplePath 2 90 3] [(1, 20), (2, 60)]))
     \<noteq> [Some 68.6, Some 46.8]
   \<and> map score (pathsWithScores
      (exampleSession [examplePath 1 65 1, examplePath 2 90 3] [(1, 20), (2, 60)]))
     \<noteq> [Some (fl64 68.6), Some (fl64 46.8)]
   \<and> map_option (map_option path_id \<circ> optimalPath) (calculateOptimalPath
       (exampleSession [examplePath 1 65 1, examplePath 2 90 3] [(1, 20), (2, 60)]))
     \<noteq> Some (Some 2)"
  unfolding fl64_68_6 fl64_46_8
  by (simp add: calculateOptimalPath_def pathsWithScores_def reduce_def betterPath_def
      scorePath_def scoreOf_def exampleSession_def examplePath_def
      weightedScore_65_1_20 weightedScore_90_3_60)

subsection \<open>Allocation with no empty slot\<close>

lemma no_empty_slots_exit:
  assumes "\<not> falsyImage (vehicleImage st)"
    and "roboflow_detectVehicleType (apiKey st) response = Inr vehicleResult"
    and "filter (\<lambda>s. status s = ''empty'') (detectedSlots st) = []"
  shows "detectVehicleAndAllocate rnd (Inr response) st =
     st\<lparr>detectedVehicleType := Some vehicleResult, error := ''No empty slots available'',
        isProcessing := False\<rparr>"
  using assms by (simp add: detectVehicleAndAllocate_def Let_def)

lemma exampleVehicleReply_result:
  "roboflow_detectVehicleType ''key'' (exampleVehicleReply cls) =
     Inr \<lparr> vehicle_type = mapClassToVehicleType cls, veh_confidence = 87, veh_x = 320,
           veh_y = 240, veh_width = 200, veh_height = 120, veh_original_class = cls \<rparr>"
  by (simp add: roboflow_detectVehicleType_def exampleVehicleReply_def reduce_def)

text \<open>
  C6. When the vehicle has been detected and no detected slot is empty, the step ends with
  the error message \<open>No empty slots available\<close>; it writes no allocated slot (none is
  selected in a session that had none), leaves the step counter where it was, ends with
  \<open>isProcessing\<close> false, and a reset afterwards gives the initial session again
  (keeping the API key).
\<close>

theorem C6_no_empty_slots_error:
  assumes "\<not> falsyImage (vehicleImage st)"
    and "roboflow_detectVehicleType (apiKey st) response = Inr vehicleResult"
    and "filter (\<lambda>s. status s = ''empty'') (detectedSlots st) = []"
  shows "error (detectVehicleAndAllocate rnd (Inr response) st) = ''No empty slots available''
     \<and> allocatedSlot (detectVehicleAndAllocate rnd (Inr response) st) = allocatedSlot st
     \<and> (allocatedSlot st = None \<longrightarrow>
          allocatedSlot (detectVehicleAndAllocate rnd (Inr response) st) = None)
     \<and> currentStep (detectVehicleAndAllocate rnd (Inr response) st) = currentStep st
     \<and> \<not> isProcessing (detectVehicleAndAllocate rnd (Inr response) st)
     \<and> resetSystem (detectVehicleAndAllocate rnd (Inr response) st) =
         initialState\<lparr>apiKey := apiKey st, showApiKey := showApiKey st\<rparr>"
  unfolding no_empty_slots_exit [OF assms]
  by (simp add: resetSystem_def initialState_def)

theorem C6_no_empty_slots_error_witness:
  "\<not> falsyImage (vehicleImage (exampleStepTwo [(exampleSlot 1 50 True)\<lparr>status := ''occupied''\<rparr>]))
   \<and> roboflow_detectVehicleType
        (apiKey (exampleStepTwo [(exampleSlot 1 50 True)\<lparr>status := ''occupied''\<rparr>]))
        (exampleVehicleReply ''Sedan'')
       = Inr \<lparr> vehicle_type = mapClassToVehicleType ''Sedan'', veh_confidence = 87, veh_x = 320,
           veh_y = 240, veh_width = 200, veh_height = 120, veh_original_class = ''Sedan'' \<rparr>
   \<and> filter (\<lambda>s. status s = ''empty'')
        (detectedSlots (exampleStepTwo [(exampleSlot 1 50 True)\<lparr>status := ''occupied''\<rparr>])) = []
   \<and> error (detectVehicleAndAllocate (\<lambda>n. 0) (Inr (exampleVehicleReply ''Sedan''))
        (exampleStepTwo [(exampleSlot 1 50 True)\<lparr>status := ''occupied''\<rparr>]))
       = ''No empty slots available''
   \<and> allocatedSlot (detectVehicleAndAllocate (\<lambda>n. 0) (Inr (exampleVehicleReply ''Sedan''))
        (exampleStepTwo [(exampleSlot 1 50 True)\<lparr>status := ''occupied''\<rparr>]))
       = None
   \<and> resetSystem (detectVehicleAndAllocate (\<lambda>n. 0) (Inr (exampleVehicleReply ''Sedan''))
        (exampleStepTwo [(exampleSlot 1 50 True)\<lparr>status := ''occupied''\<rparr>]))
       = initialState\<lparr>apiKey := ''key''\<rparr>"
proof -
  let ?st = "exampleStepTwo [(exampleSlot 1 50 True)\<lparr>status := ''occupied''\<rparr>]"
  have img: "\<not> falsyImage (vehicleImage ?st)"
    by (simp add: exampleStepTwo_def falsyImage_def)
  have key: "apiKey ?st = ''key''" and shown: "showApiKey ?st = False"
    and none: "allocatedSlot ?st = None"
    by (simp_all add: exampleStepTwo_def initialState_def)
  have res: "roboflow_detectVehicleType (apiKey ?st) (exampleVehicleReply ''Sedan'')
      = Inr \<lparr> vehicle_type = mapClassToVehicleType ''Sedan'', veh_confidence = 87, veh_x = 320,
           veh_y = 240, veh_width = 200, veh_height = 120, veh_original_class = ''Sedan'' \<rparr>"
    unfolding key by (rule exampleVehicleReply_result)
  have full: "filter (\<lambda>s. status s = ''empty'') (detectedSlots ?st) = []"
    by (simp add: exampleStepTwo_def exampleSlot_def)
  from C6_no_empty_slots_error [OF img res full, of "\<lambda>n. 0"] img res full key shown none
  show ?thesis by (simp add: initialState_def)
qed

text \<open>
  C10. On the same exit the detected vehicle is already stored in the session, while the
  allocated slot and the path list keep their prior values; the only other changes are
  the error message and \<open>isProcessing\<close>.
\<close>

theorem C10_vehicle_committed_before_check:
  assumes "\<not> falsyImage (vehicleImage st)"
    and "roboflow_detectVehicleType (apiKey st) response = Inr vehicleResult"
    and "filter (\<lambda>s. status s = ''empty'') (detectedSlots st) = []"
  shows "detectedVehicleType (detectVehicleAndAllocate rnd (Inr response) st) = Some vehicleResult
     \<and> allocatedSlot (detectVehicleAndAllocate rnd (Inr response) st) = allocatedSlot st
     \<and> pathsData (detectVehicleAndAllocate rnd (Inr response) st) = pathsData st
     \<and> detectVehicleAndAllocate rnd (Inr response) st =
         st\<lparr>detectedVehicleType := Some vehicleResult, error := ''No empty slots available'',
            isProcessing := False\<rparr>"
  unfolding no_empty_slots_exit [OF assms] by simp

theorem C10_vehicle_committed_before_check_witness:
  "\<not> falsyImage (vehicleImage (exampleStepTwo []))
   \<and> roboflow_detectVehicleType (apiKey (exampleStepTwo [])) (exampleVehicleReply ''Minibus'')
       = Inr \<lparr> vehicle_type = mapClassToVehicleType ''Minibus'', veh_confidence = 87, veh_x = 320,
           veh_y = 240, veh_width = 200, veh_height = 120, veh_original_class = ''Minibus'' \<rparr>
   \<and> filter (\<lambda>s. status s = ''empty'') (detectedSlots (exampleStepTwo [])) = []
   \<and> detectedVehicleType (exampleStepTwo []) = None
   \<and> map_option vehicle_type (detectedVehicleType
        (detectVehicleAndAllocate (\<lambda>n. 0) (Inr (exampleVehicleReply ''Minibus'')) (exampleStepTwo [])))
       = Some ''bus''
   \<and> allocatedSlot
        (detectVehicleAndAllocate (\<lambda>n. 0) (Inr (exampleVehicleReply ''Minibus'')) (exampleStepTwo []))
       = None
   \<and> pathsData
        (detectVehicleAndAllocate (\<lambda>n. 0) (Inr (exampleVehicleReply ''Minibus'')) (exampleStepTwo []))
       = []"
proof -
  let ?st = "exampleStepTwo []"
  have img: "\<not> falsyImage (vehicleImage ?st)"
    by (simp add: exampleStepTwo_def falsyImage_def)
  have key: "apiKey ?st = ''key''" and before: "detectedVehicleType ?st = None"
    and none: "allocatedSlot ?st = None" and paths: "pathsData ?st = []"
    by (simp_all add: exampleStepTwo_def initialState_def)
  have res: "roboflow_detectVehicleType (apiKey ?st) (exampleVehicleReply ''Minibus'')
      = Inr \<lparr> vehicle_type = mapClassToVehicleType ''Minibus'', veh_confidence = 87, veh_x = 320,
           veh_y = 240, veh_width = 200, veh_height = 120, veh_original_class = ''Minibus'' \<rparr>"
    unfolding key by (rule exampleVehicleReply_result)
  have full: "filter (\<lambda>s. status s = ''empty'') (detectedSlots ?st) = []"
    by (simp add: exampleStepTwo_def)
  have bus: "mapClassToVehicleType ''Minibus'' = ''bus''"
    by code_simp
  from C10_vehicle_committed_before_check [OF img res full, of "\<lambda>n. 0"]
    img res full before none paths bus
  show ?thesis by simp
qed

subsection \<open>Path Candidate Generator\<close>

lemma length_generatePathsToSlot:
  "length (generatePathsToSlot rnd s) = (if row s \<le> 1 then 4 else 3)"
  by (simp add: generatePathsToSlot_def)

lemma nth_generatePathsToSlot:
  assumes "i < length (generatePathsToSlot rnd s)"
  shows "generatePathsToSlot rnd s ! i =
     \<lparr> path_id = i + 1, path_name = ''Path '' @ digits10 (i + 1),
       distance = fl64 (fl64 (65 + fl64 (real i * 25)) + fl64 (rnd (2 * i) * 20)),
       tJunctions = 1 + int i + \<lfloor>fl64 (rnd (2 * i + 1) * 2)\<rfloor>,
       vehicleIntensity = None, score = None \<rparr>"
proof -
  have "i < (if row s \<le> 1 then 4 else 3)"
    using assms by (simp add: length_generatePathsToSlot)
  then show ?thesis
    by (simp add: generatePathsToSlot_def Let_def del: upt_rec_numeral)
qed

text \<open>The base distance of a path is a small integer, which no operation rounds.\<close>

lemma base_distance_exact:
  assumes "i < 4"
  shows "fl64 (65 + fl64 (real i * 25)) = real (65 + i * 25)"
proof -
  have "fl64 (real (i * 25)) = real (i * 25)"
    using assms by (intro fl64_of_nat) simp
  then have a: "fl64 (real i * 25) = real (i * 25)" by simp
  have "fl64 (real (65 + i * 25)) = real (65 + i * 25)"
    using assms by (intro fl64_of_nat) simp
  then show ?thesis unfolding a by simp
qed

lemma jitter_bounds:
  assumes "0 \<le> r" and "r < 1"
  shows "0 \<le> fl64 (r * 20) \<and> fl64 (r * 20) \<le> 20"
proof
  have small: "\<bar>r * 20\<bar> < 2 powi (4 + 1)" using assms by simp
  have me: "minExponent \<le> 4" by (simp add: minExponent_def)
  show "0 \<le> fl64 (r * 20)"
    using assms by (intro fl64_ge [OF _ small me, where m = 0]) simp_all
  show "fl64 (r * 20) \<le> 20"
    using assms by (intro fl64_le [OF _ small me, where m = "20 * 2 ^ 48"]) simp_all
qed

lemma distance_bounds:
  assumes "i < 4" and "0 \<le> t" and "t \<le> 20"
  shows "real (65 + i * 25) \<le> fl64 (real (65 + i * 25) + t)
     \<and> fl64 (real (65 + i * 25) + t) \<le> real (65 + i * 25) + 20"
proof
  let ?c = "real (65 + i * 25)"
  have c: "65 \<le> ?c" "?c \<le> 140" using assms(1) by simp_all
  have small: "\<bar>?c + t\<bar> < 2 powi (7 + 1)" using c assms(2,3) by simp
  have me: "minExponent \<le> 7" by (simp add: minExponent_def)
  have g1: "?c = of_int (int (65 + i * 25) * 2 ^ 45) * 2 powi (7 - 52)"
    by simp
  have g2: "?c + 20 = of_int (int (65 + i * 25 + 20) * 2 ^ 45) * 2 powi (7 - 52)"
    by simp
  show "?c \<le> fl64 (?c + t)"
    using assms(2) by (intro fl64_ge [OF _ small me g1]) simp
  show "fl64 (?c + t) \<le> ?c + 20"
    using assms(3) by (intro fl64_le [OF _ small me g2]) simp
qed

lemma extra_junction:
  assumes "0 \<le> r" and "r < 1" and "fl64 r = r"
  shows "\<lfloor>fl64 (r * 2)\<rfloor> = 0 \<or> \<lfloor>fl64 (r * 2)\<rfloor> = 1"
proof -
  have top: "r \<le> 1 - 2 powi (- 53)" using assms(3,2) by (rule fl64_below_one)
  have small: "\<bar>r * 2\<bar> < 2 powi (0 + 1)" using assms by simp
  have me: "minExponent \<le> 0" by (simp add: minExponent_def)
  have lo: "0 \<le> fl64 (r * 2)"
    using assms by (intro fl64_ge [OF _ small me, where m = 0]) simp_all
  have "r * 2 \<le> 2 - 2 powi (- 52)" using top by simp
  then have "fl64 (r * 2) \<le> 2 - 2 powi (- 52)"
    by (intro fl64_le [OF _ small me, where m = "2 ^ 53 - 1"]) simp_all
  then have hi: "fl64 (r * 2) < 2" by simp
  have "0 \<le> \<lfloor>fl64 (r * 2)\<rfloor>" using lo by simp
  moreover have "\<lfloor>fl64 (r * 2)\<rfloor> < 2" using hi by (simp add: floor_less_iff)
  ultimately show ?thesis by linarith
qed

text \<open>
  C8. With random doubles in \<open>[0, 1)\<close>, the generator returns 4 paths for a slot in row
  0 or 1 and 3 paths otherwise; the path of index \<open>i\<close> has its distance in the closed
  interval from \<open>65 + 25 i\<close> to \<open>65 + 25 i + 20\<close>, \<open>1 + i\<close> or \<open>2 + i\<close> junctions, and
  neither an intensity nor a score.
\<close>

theorem C8_generated_paths:
  assumes "\<forall>n. 0 \<le> rnd n \<and> rnd n < 1 \<and> fl64 (rnd n) = rnd n"
  shows "length (generatePathsToSlot rnd s) = (if row s \<le> 1 then 4 else 3)
     \<and> (\<forall>i < length (generatePathsToSlot rnd s).
           65 + 25 * real i \<le> distance (generatePathsToSlot rnd s ! i)
         \<and> distance (generatePathsToSlot rnd s ! i) \<le> 65 + 25 * real i + 20
         \<and> (tJunctions (generatePathsToSlot rnd s ! i) = 1 + int i
            \<or> tJunctions (generatePathsToSlot rnd s ! i) = 2 + int i)
         \<and> vehicleIntensity (generatePathsToSlot rnd s ! i) = None
         \<and> score (generatePathsToSlot rnd s ! i) = None)"
proof (intro conjI allI impI)
  show "length (generatePathsToSlot rnd s) = (if row s \<le> 1 then 4 else 3)"
    by (rule length_generatePathsToSlot)
next
  fix i assume i: "i < length (generatePathsToSlot rnd s)"
  then have i4: "i < 4" by (simp add: length_generatePathsToSlot split: if_splits)
  have r: "0 \<le> rnd (2 * i)" "rnd (2 * i) < 1" using assms by auto
  have d: "distance (generatePathsToSlot rnd s ! i)
      = fl64 (real (65 + i * 25) + fl64 (rnd (2 * i) * 20))"
    by (simp add: nth_generatePathsToSlot [OF i] base_distance_exact [OF i4])
  from jitter_bounds [OF r] distance_bounds [OF i4, of "fl64 (rnd (2 * i) * 20)"]
  have b: "real (65 + i * 25) \<le> distance (generatePathsToSlot rnd s ! i)"
    "distance (generatePathsToSlot rnd s ! i) \<le> real (65 + i * 25) + 20"
    unfolding d by simp_all
  show "65 + 25 * real i \<le> distance (generatePathsToSlot rnd s ! i)"
    using b(1) by simp
  show "distance (generatePathsToSlot rnd s ! i) \<le> 65 + 25 * real i + 20"
    using b(2) by simp
  have "0 \<le> rnd (2 * i + 1)" "rnd (2 * i + 1) < 1" "fl64 (rnd (2 * i + 1)) = rnd (2 * i + 1)"
    using assms by auto
  from extra_junction [OF this]
  show "tJunctions (generatePathsToSlot rnd s ! i) = 1 + int i
      \<or> tJunctions (generatePathsToSlot rnd s ! i) = 2 + int i"
    by (auto simp: nth_generatePathsToSlot [OF i])
  show "vehicleIntensity (generatePathsToSlot rnd s ! i) = None"
    by (simp add: nth_generatePathsToSlot [OF i])
  show "score (generatePathsToSlot rnd s ! i) = None"
    by (simp add: nth_generatePathsToSlot [OF i])
qed

lemma fl64_quarters:
  "fl64 (1 / 4) = 1 / 4"
  "fl64 (3 / 4) = 3 / 4"
  "fl64 (3 / 2) = 3 / 2"
proof -
  show "fl64 (1 / 4) = 1 / 4"
    by (subst fl64_eval [where e = "- 2"])
       (simp_all add: minExponent_def roundTiesToEven_def Let_def)
  show "fl64 (3 / 4) = 3 / 4"
    by (subst fl64_eval [where e = "- 1"])
       (simp_all add: minExponent_def roundTiesToEven_def Let_def)
  show "fl64 (3 / 2) = 3 / 2"
    by (subst fl64_eval [where e = 0])
       (simp_all add: minExponent_def roundTiesToEven_def Let_def)
qed

theorem C8_generated_paths_witness:
  "(\<forall>n::nat. (0::real) \<le> (if even n then 1 / 4 else 3 / 4)
       \<and> (if even n then 1 / 4 else 3 / 4) < (1::real)
       \<and> fl64 (if even n then 1 / 4 else 3 / 4) = (if even n then 1 / 4 else 3 / 4))
   \<and> row (exampleSlot 12 80 False) = 1
   \<and> length (generatePathsToSlot (\<lambda>n. if even n then 1 / 4 else 3 / 4) (exampleSlot 12 80 False)) = 4
   \<and> row (exampleSlot 20 80 False) = 2
   \<and> length (generatePathsToSlot (\<lambda>n. if even n then 1 / 4 else 3 / 4) (exampleSlot 20 80 False)) = 3
   \<and> map distance (generatePathsToSlot (\<lambda>n. if even n then 1 / 4 else 3 / 4) (exampleSlot 20 80 False))
       = [70, 95, 120]
   \<and> map tJunctions (generatePathsToSlot (\<lambda>n. if even n then 1 / 4 else 3 / 4) (exampleSlot 20 80 False))
       = [2, 3, 4]"
proof -
  let ?rnd = "\<lambda>n::nat. if even n then 1 / 4 else 3 / (4::real)"
  have unit: "\<forall>n. 0 \<le> ?rnd n \<and> ?rnd n < 1 \<and> fl64 (?rnd n) = ?rnd n"
    by (simp add: fl64_quarters)
  have row1: "row (exampleSlot 12 80 False) = 1" and row2: "row (exampleSlot 20 80 False) = 2"
    by (simp_all add: exampleSlot_def)
  have len1: "length (generatePathsToSlot ?rnd (exampleSlot 12 80 False)) = 4"
    using C8_generated_paths [OF unit, of "exampleSlot 12 80 False"] row1 by simp
  have len2: "length (generatePathsToSlot ?rnd (exampleSlot 20 80 False)) = 3"
    using C8_generated_paths [OF unit, of "exampleSlot 20 80 False"] row2 by simp
  have upt3: "[0..<3] = [0, 1, 2::nat]" by code_simp
  have ds: "map distance (generatePathsToSlot ?rnd (exampleSlot 20 80 False)) = [70, 95, 120]"
    by (simp add: generatePathsToSlot_def row2 upt3 fl64_zero fl64_numeral)
  have js: "map tJunctions (generatePathsToSlot ?rnd (exampleSlot 20 80 False)) = [2, 3, 4]"
    by (simp add: generatePathsToSlot_def row2 upt3 fl64_quarters)
  from unit row1 len1 row2 len2 ds js show ?thesis by simp
qed

text \<open>
  The upper end is reached: with the random value \<open>1 - 2^-52\<close>, a double below 1, the
  jitter \<open>r * 20\<close> rounds to \<open>20 - 2^-48\<close> and the sum \<open>65 + (20 - 2^-48)\<close> rounds to 85,
  so the distance of the first path is not below \<open>65 + 20\<close>.
\<close>

theorem C8_distance_reaches_upper_end:
  "(0::real) \<le> 1 - 2 powi (- 52) \<and> (1::real) - 2 powi (- 52) < 1
   \<and> fl64 (1 - 2 powi (- 52)) = 1 - 2 powi (- 52)
   \<and> distance (generatePathsToSlot (\<lambda>n. 1 - 2 powi (- 52)) (exampleSlot 1 50 True) ! 0) = 85
   \<and> \<not> distance (generatePathsToSlot (\<lambda>n. 1 - 2 powi (- 52)) (exampleSlot 1 50 True) ! 0)
        < 65 + 25 * real 0 + 20"
proof -
  have r: "(1::real) - 2 powi (- 52) = 4503599627370495 / 4503599627370496" by simp
  have d: "fl64 (4503599627370495 / 4503599627370496) = 4503599627370495 / 4503599627370496"
    by (subst fl64_eval [where e = "- 1"])
       (simp_all add: minExponent_def roundTiesToEven_def Let_def)
  have j: "fl64 (4503599627370495 / 4503599627370496 * 20) = 5629499534213119 / 281474976710656"
    by (subst fl64_eval [where e = 4])
       (simp_all add: minExponent_def roundTiesToEven_def Let_def)
  have s: "fl64 (65 + 5629499534213119 / 281474976710656) = 85"
    by (subst fl64_eval [where e = 6])
       (simp_all add: minExponent_def roundTiesToEven_def Let_def)
  have j': "fl64 (22517998136852475 / 1125899906842624) = 5629499534213119 / 281474976710656"
    using j by simp
  have s': "fl64 (23925373020405759 / 281474976710656) = 85"
    using s by simp
  have len: "0 < length (generatePathsToSlot (\<lambda>n. 4503599627370495 / 4503599627370496)
      (exampleSlot 1 50 True))"
    by (simp add: length_generatePathsToSlot)
  have "distance (generatePathsToSlot (\<lambda>n. 4503599627370495 / 4503599627370496)
      (exampleSlot 1 50 True) ! 0) = 85"
    unfolding nth_generatePathsToSlot [OF len]
    by (simp add: fl64_zero fl64_numeral j j' s s')
  then show ?thesis unfolding r using d by simp
qed

subsection \<open>Vehicle intensities\<close>

lemma simulated_product_below_80:
  assumes "0 \<le> r" and "r < 1" and "fl64 r = r"
  shows "0 \<le> fl64 (r * 80) \<and> fl64 (r * 80) < 80"
proof
  have top: "r \<le> 1 - 2 powi (- 53)" using assms(3,2) by (rule fl64_below_one)
  have p53: "(2::real) powi (- 53) = 1 / 2 ^ 53"
    by (simp only: power_int_minus_divide power_int_numeral)
  have small: "\<bar>r * 80\<bar> < 2 powi (6 + 1)" using assms by simp
  have me: "minExponent \<le> 6" by (simp add: minExponent_def)
  show "0 \<le> fl64 (r * 80)"
    using assms by (intro fl64_ge [OF _ small me, where m = 0]) simp_all
  show "fl64 (r * 80) < 80"
  proof (cases "r * 80 < 64")
    case True
    have s5: "\<bar>r * 80\<bar> < 2 powi (5 + 1)" using True assms(1) by simp
    have "fl64 (r * 80) \<le> 64"
      using True by (intro fl64_le [OF _ s5, where m = "2 ^ 53"]) (simp_all add: minExponent_def)
    then show ?thesis by simp
  next
    case False
    have lo: "(2::real) powi 6 \<le> \<bar>r * 80\<bar>" using False by simp
    have ev: "fl64 (r * 80) = of_int (roundTiesToEven (r * 80 / 2 powi (6 - 52))) * 2 powi (6 - 52)"
      using lo small me by (rule fl64_eval)
    have q: "(2::real) powi (6 - 52) = 1 / 2 ^ 46"
      by (simp add: power_int_minus_divide)
    have "r * 80 \<le> 80 - 80 / 2 ^ 53" using top unfolding p53 by simp
    then have "r * 80 * 2 ^ 46 \<le> (80 - 80 / 2 ^ 53) * 2 ^ 46"
      by (simp only: mult_le_cancel_right_pos zero_less_power zero_less_numeral)
    also have "\<dots> < of_int (80 * 2 ^ 46 - 1) + 1 / 2" by simp
    finally have "r * 80 / (1 / 2 ^ 46) < of_int (80 * 2 ^ 46 - 1) + 1 / 2" by simp
    then have "roundTiesToEven (r * 80 / (1 / 2 ^ 46)) \<le> 80 * 2 ^ 46 - 1"
      by (rule roundTiesToEven_le_half)
    then have "(of_int (roundTiesToEven (r * 80 / (1 / 2 ^ 46))) :: real) \<le> of_int (80 * 2 ^ 46 - 1)"
      by (simp only: of_int_le_iff)
    then have "of_int (roundTiesToEven (r * 80 / (1 / 2 ^ 46))) * (1 / 2 ^ 46)
        \<le> (of_int (80 * 2 ^ 46 - 1) :: real) * (1 / 2 ^ 46)"
      by (intro mult_right_mono) simp_all
    also have "\<dots> < 80" by simp
    finally show ?thesis unfolding ev q .
  qed
qed

lemma simulatedIntensity_range:
  assumes "0 \<le> r" and "r < 1" and "fl64 r = r"
  shows "10 \<le> simulatedIntensity r \<and> simulatedIntensity r < 90"
proof -
  from simulated_product_below_80 [OF assms]
  have "0 \<le> fl64 (r * 80)" and "fl64 (r * 80) < 80" by simp_all
  then have "0 \<le> \<lfloor>fl64 (r * 80)\<rfloor>" and "\<lfloor>fl64 (r * 80)\<rfloor> < 80"
    by (simp_all add: floor_less_iff)
  then show ?thesis by (simp add: simulatedIntensity_def)
qed

lemma simulated_fold_range:
  assumes "\<forall>n. 0 \<le> rnd n \<and> rnd n < 1 \<and> fl64 (rnd n) = rnd n"
    and "\<forall>k v. m k = Some v \<longrightarrow> 10 \<le> v \<and> v < 90"
    and "foldl (\<lambda>m (k, p). m(path_id p \<mapsto> simulatedIntensity (rnd k))) m kps j = Some w"
  shows "10 \<le> w \<and> w < 90"
  using assms(2,3)
proof (induction kps arbitrary: m)
  case Nil
  then show ?case by simp
next
  case (Cons kp kps)
  obtain k p where kp: "kp = (k, p)" by (cases kp)
  let ?m = "m(path_id p \<mapsto> simulatedIntensity (rnd k))"
  have "\<forall>i v. ?m i = Some v \<longrightarrow> 10 \<le> v \<and> v < 90"
    using Cons.prems(1) simulatedIntensity_range [of "rnd k"] assms(1) by auto
  moreover have "foldl (\<lambda>m (k, p). m(path_id p \<mapsto> simulatedIntensity (rnd k))) ?m kps j = Some w"
    using Cons.prems(2) unfolding kp by (simp del: fun_upd_apply)
  ultimately show ?case by (rule Cons.IH)
qed

text \<open>The simulated intensities are integers from 10 to 89.\<close>

lemma detectPathVehicleIntensities_range:
  assumes "\<forall>n. 0 \<le> rnd n \<and> rnd n < 1 \<and> fl64 (rnd n) = rnd n"
    and "pathVehicleIntensities (detectPathVehicleIntensities rnd st) j = Some w"
  shows "10 \<le> w \<and> w < 90"
proof -
  have "foldl (\<lambda>m (k, p). m(path_id p \<mapsto> simulatedIntensity (rnd k))) Map.empty
      (enumerate 0 (pathsData st)) j = Some w"
    using assms(2) by (simp add: detectPathVehicleIntensities_def)
  with assms(1) show ?thesis
    by (intro simulated_fold_range [where m = Map.empty]) auto
qed

text \<open>A manual entry replaces the value of its path, whatever it was.\<close>

lemma handleVehicleIntensityChange_overrides:
  "pathVehicleIntensities (handleVehicleIntensityChange pathId v st) =
     (pathVehicleIntensities st)(pathId \<mapsto> (case parseInt v of None \<Rightarrow> 0 | Some n \<Rightarrow> n))"
  by (simp add: handleVehicleIntensityChange_def)

lemma parseDigits_examples:
  "parseDigits ''500'' = Some (False, 500)"
  "parseDigits ''-5'' = Some (True, 5)"
  "parseDigits ''42'' = Some (False, 42)"
  "parseDigits '' 0x1F'' = Some (False, 31)"
  "parseDigits ''12.5'' = Some (False, 12)"
  "parseDigits ''abc'' = None"
  "parseDigits [] = None"
  "parseDigits (CHR 0xA0 # ''7'') = Some (False, 7)"
  by code_simp+

lemma parseDigits_large: "parseDigits ''9007199254740993'' = Some (False, 9007199254740993)"
  by (simp add: parseDigits_def isWhiteSpace_def isDigitOf_def digitValue_def digitsValue_def)

lemma parseInt_examples:
  "parseInt ''500'' = Some 500"
  "parseInt ''-5'' = Some (- 5)"
  "parseInt ''42'' = Some 42"
  "parseInt '' 0x1F'' = Some 31"
  "parseInt ''12.5'' = Some 12"
  "parseInt ''abc'' = None"
  "parseInt [] = None"
  "parseInt (CHR 0xA0 # ''7'') = Some 7"
  by (simp_all add: parseInt_def parseDigits_examples fl64_numeral)

text \<open>Beyond \<open>2^53\<close> the value of the digits is rounded.\<close>

lemma parseInt_rounds: "parseInt ''9007199254740993'' = Some 9007199254740992"
proof -
  have "fl64 9007199254740993 = 9007199254740992"
    by (subst fl64_eval [where e = 53])
       (simp_all add: minExponent_def roundTiesToEven_def Let_def)
  then show ?thesis by (simp add: parseInt_def parseDigits_large)
qed

text \<open>
  C9. The simulated intensities are integers from 10 to 89, and a manual entry replaces
  the simulated value of its path and is the value that scoring reads. The manual entry
  is not limited to 0..100, though the input field declares that range: the entries
  \<open>500\<close> and \<open>-5\<close> are stored as they are and reach the scored path.
\<close>

theorem C9_manual_intensity_out_of_range:
  "pathVehicleIntensities
      (detectPathVehicleIntensities (\<lambda>n. 1 / 2)
         (exampleSession [examplePath 1 70 1, examplePath 2 95 2] [])) 1 = Some 50
   \<and> pathVehicleIntensities
      (handleVehicleIntensityChange 1 ''500''
         (detectPathVehicleIntensities (\<lambda>n. 1 / 2)
            (exampleSession [examplePath 1 70 1, examplePath 2 95 2] []))) 1 = Some 500
   \<and> map vehicleIntensity (pathsWithScores
      (handleVehicleIntensityChange 1 ''500''
         (detectPathVehicleIntensities (\<lambda>n. 1 / 2)
            (exampleSession [examplePath 1 70 1, examplePath 2 95 2] []))))
       = [Some 500, Some 50]
   \<and> pathVehicleIntensities
      (handleVehicleIntensityChange 2 ''-5''
         (detectPathVehicleIntensities (\<lambda>n. 1 / 2)
            (exampleSession [examplePath 1 70 1, examplePath 2 95 2] []))) 2 = Some (- 5)"
  by (simp add: handleVehicleIntensityChange_def parseInt_examples
      detectPathVehicleIntensities_def simulatedIntensity_def pathsWithScores_def
      scorePath_def exampleSession_def examplePath_def fl64_numeral)

subsection \<open>Slot Normalizer\<close>

text \<open>
  The comparator of the spatial sort is not transitive: three detections can rank in a
  cycle. On such a batch ECMAScript leaves the order to the engine.
\<close>

lemma spatialCompare_cycle:
  "spatialCompare (examplePrediction 100 0 c) (examplePrediction 0 80 c) < 0
   \<and> spatialCompare (examplePrediction 0 80 c) (examplePrediction 50 40 c) < 0
   \<and> spatialCompare (examplePrediction 50 40 c) (examplePrediction 100 0 c) < 0"
  by (simp add: spatialCompare_def examplePrediction_def fl64_numeral fl64_neg_numeral)

lemma not_consistentOn_cycle:
  "\<not> consistentOn spatialCompare
      {examplePrediction 100 0 c, examplePrediction 0 80 c, examplePrediction 50 40 c}"
proof
  let ?a = "examplePrediction 100 0 c" and ?b = "examplePrediction 0 80 c"
    and ?d = "examplePrediction 50 40 c"
  assume "consistentOn spatialCompare {?a, ?b, ?d}"
  then have "spatialCompare ?a ?b \<le> 0 \<and> spatialCompare ?b ?d \<le> 0
      \<longrightarrow> spatialCompare ?a ?d \<le> 0"
    unfolding consistentOn_def by blast
  moreover have "spatialCompare ?a ?d = 50"
    by (simp add: spatialCompare_def examplePrediction_def fl64_numeral fl64_neg_numeral)
  ultimately show False using spatialCompare_cycle [of c] by simp
qed

text \<open>Stable insertion is a conforming sort.\<close>

lemma mset_insertBy: "mset (insertBy cmp v ws) = add_mset v (mset ws)"
  by (induction ws) auto

lemma mset_insertionSort: "mset (insertionSort cmp xs) = mset xs"
  by (induction xs) (auto simp: insertionSort_def mset_insertBy)

lemma set_insertBy: "set (insertBy cmp v ws) = insert v (set ws)"
  using mset_insertBy [of cmp v ws] by (metis set_mset_add_mset_insert set_mset_mset)

lemma sorted_insertBy:
  assumes "consistentOn cmp S" and "v \<in> S" and "set ws \<subseteq> S"
    and "sorted_wrt (\<lambda>a b. cmp a b \<le> 0) ws"
  shows "sorted_wrt (\<lambda>a b. cmp a b \<le> 0) (insertBy cmp v ws)"
  using assms(3,4)
proof (induction ws)
  case Nil
  then show ?case by simp
next
  case (Cons w ws)
  have anti: "\<And>a b. a \<in> S \<Longrightarrow> b \<in> S \<Longrightarrow> (cmp a b < 0) = (0 < cmp b a)"
    and trans: "\<And>a b c. a \<in> S \<Longrightarrow> b \<in> S \<Longrightarrow> c \<in> S \<Longrightarrow>
        cmp a b \<le> 0 \<Longrightarrow> cmp b c \<le> 0 \<Longrightarrow> cmp a c \<le> 0"
    using assms(1) unfolding consistentOn_def by blast+
  have w: "w \<in> S" and ws: "set ws \<subseteq> S" using Cons.prems(1) by auto
  have tail: "sorted_wrt (\<lambda>a b. cmp a b \<le> 0) ws" and head: "\<forall>y \<in> set ws. cmp w y \<le> 0"
    using Cons.prems(2) by auto
  show ?case
  proof (cases "cmp v w \<le> 0")
    case True
    have "\<forall>y \<in> set ws. cmp v y \<le> 0"
    proof
      fix y assume y: "y \<in> set ws"
      then have "cmp w y \<le> 0" using head by simp
      with True show "cmp v y \<le> 0" using trans [OF assms(2) w] y ws by blast
    qed
    then show ?thesis using True Cons.prems(2) by simp
  next
    case False
    then have "0 < cmp v w" by simp
    then have "cmp w v < 0" using anti [OF w assms(2)] by simp
    then have "\<forall>y \<in> set (insertBy cmp v ws). cmp w y \<le> 0"
      using head by (auto simp: set_insertBy)
    moreover have "sorted_wrt (\<lambda>a b. cmp a b \<le> 0) (insertBy cmp v ws)"
      using Cons.IH [OF ws tail] .
    ultimately show ?thesis using False by simp
  qed
qed

lemma sorted_insertionSort:
  assumes "consistentOn cmp S" and "set xs \<subseteq> S"
  shows "sorted_wrt (\<lambda>a b. cmp a b \<le> 0) (insertionSort cmp xs)"
  using assms(2)
proof (induction xs)
  case Nil
  then show ?case by (simp add: insertionSort_def)
next
  case (Cons x xs)
  have "set (insertionSort cmp xs) \<subseteq> S"
    using Cons.prems mset_insertionSort [of cmp xs] by (metis set_mset_mset set_subset_Cons subset_trans)
  moreover have "sorted_wrt (\<lambda>a b. cmp a b \<le> 0) (insertionSort cmp xs)"
    using Cons by simp
  moreover have "x \<in> S" using Cons.prems by simp
  ultimately have "sorted_wrt (\<lambda>a b. cmp a b \<le> 0) (insertBy cmp x (insertionSort cmp xs))"
    using sorted_insertBy [OF assms(1)] by blast
  then show ?case by (simp add: insertionSort_def)
qed

lemma conformingSort_insertionSort: "conformingSort insertionSort"
  unfolding conformingSort_def
  using mset_insertionSort sorted_insertionSort by blast


lemma consistentOn_refl: "consistentOn cmp S \<Longrightarrow> a \<in> S \<Longrightarrow> cmp a a = 0"
proof -
  assume "consistentOn cmp S" and "a \<in> S"
  then have "(cmp a a < 0) = (0 < cmp a a)" unfolding consistentOn_def by blast
  then show ?thesis by linarith
qed

lemma filter_eq_replicate: "filter (\<lambda>b. a = b) xs = replicate (count (mset xs) a) a"
  by (induction xs) auto

lemma consistentOn_both:
  assumes "consistentOn cmp S" and "a \<in> S" and "b \<in> S" and "cmp a b \<le> 0" and "cmp b a \<le> 0"
  shows "cmp a b = 0"
proof -
  have "(cmp a b < 0) = (0 < cmp b a)"
    using assms(1-3) unfolding consistentOn_def by blast
  then show ?thesis using assms(4,5) by linarith
qed

lemma consistentOn_equal_trans:
  assumes "consistentOn cmp S" and "a \<in> S" and "b \<in> S" and "c \<in> S"
    and "cmp a b = 0" and "cmp a c = 0"
  shows "cmp b c = 0"
proof -
  have anti: "\<And>p q. p \<in> S \<Longrightarrow> q \<in> S \<Longrightarrow> (cmp p q < 0) = (0 < cmp q p)"
    and trans: "\<And>p q r. p \<in> S \<Longrightarrow> q \<in> S \<Longrightarrow> r \<in> S \<Longrightarrow>
        cmp p q \<le> 0 \<Longrightarrow> cmp q r \<le> 0 \<Longrightarrow> cmp p r \<le> 0"
    using assms(1) unfolding consistentOn_def by blast+
  have ba: "cmp b a \<le> 0" using anti [OF assms(2,3)] anti [OF assms(3,2)] assms(5) by linarith
  have ca: "cmp c a \<le> 0" using anti [OF assms(2,4)] anti [OF assms(4,2)] assms(6) by linarith
  have "cmp b c \<le> 0" using trans [OF assms(3,2,4) ba] assms(6) by simp
  moreover have "cmp c b \<le> 0" using trans [OF assms(4,2,3) ca] assms(5) by simp
  ultimately show ?thesis using consistentOn_both [OF assms(1,3,4)] by blast
qed

text \<open>
  Two lists in comparator order that hold the same elements, and the elements of equal
  rank in the same order, are the same list.
\<close>

lemma sorted_wrt_unique:
  assumes "consistentOn cmp S"
  shows "set ys \<subseteq> S \<Longrightarrow> mset zs = mset ys
    \<Longrightarrow> sorted_wrt (\<lambda>a b. cmp a b \<le> 0) ys \<Longrightarrow> sorted_wrt (\<lambda>a b. cmp a b \<le> 0) zs
    \<Longrightarrow> \<forall>a \<in> set ys. filter (\<lambda>b. cmp a b = 0) zs = filter (\<lambda>b. cmp a b = 0) ys
    \<Longrightarrow> zs = ys"
proof (induction ys arbitrary: zs)
  case Nil
  then show ?case by simp
next
  case (Cons y ys)
  from Cons.prems(2) have "zs \<noteq> []" by auto
  then obtain z zs' where zs: "zs = z # zs'" by (cases zs) auto
  have sets: "set zs = set (y # ys)" using Cons.prems(2) by (rule mset_eq_setD)
  have yS: "y \<in> S" and ysS: "set ys \<subseteq> S" using Cons.prems(1) by auto
  have zS: "z \<in> S" using sets zs Cons.prems(1) by auto
  have yy: "cmp y y = 0" using consistentOn_refl [OF assms yS] .
  have "cmp z y \<le> 0"
  proof (cases "y = z")
    case True
    then show ?thesis using yy by simp
  next
    case False
    then have "y \<in> set zs'" using sets zs by auto
    then show ?thesis using Cons.prems(4) zs by simp
  qed
  moreover have "cmp y z \<le> 0"
  proof (cases "y = z")
    case True
    then show ?thesis using yy by simp
  next
    case False
    then have "z \<in> set ys" using sets zs by auto
    then show ?thesis using Cons.prems(3) by simp
  qed
  ultimately have yz: "cmp y z = 0" using consistentOn_both [OF assms yS zS] by blast
  have "filter (\<lambda>b. cmp y b = 0) zs = filter (\<lambda>b. cmp y b = 0) (y # ys)"
    using Cons.prems(5) by simp
  then have z: "z = y" using yz yy zs by simp
  have m: "mset zs' = mset ys" using Cons.prems(2) zs z by simp
  have s1: "sorted_wrt (\<lambda>a b. cmp a b \<le> 0) ys" using Cons.prems(3) by simp
  have s2: "sorted_wrt (\<lambda>a b. cmp a b \<le> 0) zs'" using Cons.prems(4) zs by simp
  have f: "\<forall>a \<in> set ys. filter (\<lambda>b. cmp a b = 0) zs' = filter (\<lambda>b. cmp a b = 0) ys"
  proof
    fix a assume "a \<in> set ys"
    then have "filter (\<lambda>b. cmp a b = 0) (y # zs') = filter (\<lambda>b. cmp a b = 0) (y # ys)"
      using Cons.prems(5) zs z by simp
    then show "filter (\<lambda>b. cmp a b = 0) zs' = filter (\<lambda>b. cmp a b = 0) ys"
      by (cases "cmp a y = 0") simp_all
  qed
  have "zs' = ys" using Cons.IH [OF ysS m s1 s2 f] .
  then show ?case using zs z by simp
qed

text \<open>
  Where the comparator is consistent and ranks no two elements equal, every conforming
  sort returns the same list.
\<close>

lemma conforming_sorts_agree:
  assumes "conformingSort srt" and "conformingSort srt'"
    and "consistentOn cmp (set xs)"
    and "\<forall>a \<in> set xs. \<forall>b \<in> set xs. cmp a b = 0 \<longrightarrow> a = b"
  shows "srt cmp xs = srt' cmp xs"
proof -
  let ?ys = "srt' cmp xs" and ?zs = "srt cmp xs"
  have my: "mset ?ys = mset xs" and mz: "mset ?zs = mset xs"
    using assms(1,2) unfolding conformingSort_def by blast+
  have sy: "sorted_wrt (\<lambda>a b. cmp a b \<le> 0) ?ys" and sz: "sorted_wrt (\<lambda>a b. cmp a b \<le> 0) ?zs"
    using assms(1-3) unfolding conformingSort_def by blast+
  have sety: "set ?ys = set xs" using my by (rule mset_eq_setD)
  have setz: "set ?zs = set xs" using mz by (rule mset_eq_setD)
  have "\<forall>a \<in> set ?ys. filter (\<lambda>b. cmp a b = 0) ?zs = filter (\<lambda>b. cmp a b = 0) ?ys"
  proof
    fix a assume "a \<in> set ?ys"
    then have a: "a \<in> set xs" using sety by simp
    have aa: "cmp a a = 0" using consistentOn_refl [OF assms(3) a] .
    have "filter (\<lambda>b. cmp a b = 0) ?zs = filter (\<lambda>b. a = b) ?zs"
      by (rule filter_cong) (use a aa assms(4) setz in auto)
    moreover have "filter (\<lambda>b. cmp a b = 0) ?ys = filter (\<lambda>b. a = b) ?ys"
      by (rule filter_cong) (use a aa assms(4) sety in auto)
    moreover have "filter (\<lambda>b. a = b) ?zs = replicate (count (mset ?zs) a) a"
      by (rule filter_eq_replicate)
    moreover have "filter (\<lambda>b. a = b) ?ys = replicate (count (mset ?ys) a) a"
      by (rule filter_eq_replicate)
    ultimately show "filter (\<lambda>b. cmp a b = 0) ?zs = filter (\<lambda>b. cmp a b = 0) ?ys"
      using my mz by simp
  qed
  then show ?thesis
    using sorted_wrt_unique [OF assms(3), of ?ys ?zs] sety my mz sy sz by simp
qed

text \<open>On a consistent comparator a conforming, stable sort changes no list that it sorted.\<close>

lemma stable_sort_idempotent:
  assumes "conformingSort srt" and "stableSort srt" and "consistentOn cmp (set xs)"
  shows "srt cmp (srt cmp xs) = srt cmp xs"
proof -
  let ?ys = "srt cmp xs"
  have my: "mset ?ys = mset xs" using assms(1) unfolding conformingSort_def by blast
  then have sety: "set ?ys = set xs" by (rule mset_eq_setD)
  have cons: "consistentOn cmp (set ?ys)" using assms(3) sety by simp
  have sy: "sorted_wrt (\<lambda>a b. cmp a b \<le> 0) ?ys"
    using assms(1,3) unfolding conformingSort_def by blast
  have mz: "mset (srt cmp ?ys) = mset ?ys" using assms(1) unfolding conformingSort_def by blast
  have sz: "sorted_wrt (\<lambda>a b. cmp a b \<le> 0) (srt cmp ?ys)"
    using assms(1) cons unfolding conformingSort_def by blast
  have st: "\<forall>a \<in> set ?ys. filter (\<lambda>b. cmp a b = 0) (srt cmp ?ys) = filter (\<lambda>b. cmp a b = 0) ?ys"
    using assms(2) cons unfolding stableSort_def by blast
  show ?thesis
    using sorted_wrt_unique [OF cons subset_refl mz sy sz st] .
qed

text \<open>Stable insertion is a stable sort.\<close>

lemma filter_insertBy:
  assumes "consistentOn cmp S" and "a \<in> S" and "v \<in> S"
  shows "set ws \<subseteq> S \<Longrightarrow> filter (\<lambda>b. cmp a b = 0) (insertBy cmp v ws)
    = (if cmp a v = 0 then v # filter (\<lambda>b. cmp a b = 0) ws else filter (\<lambda>b. cmp a b = 0) ws)"
proof (induction ws)
  case Nil
  then show ?case by simp
next
  case (Cons w ws)
  have w: "w \<in> S" and ws: "set ws \<subseteq> S" using Cons.prems by auto
  show ?case
  proof (cases "cmp v w \<le> 0")
    case True
    then show ?thesis by simp
  next
    case False
    have "cmp a v = 0 \<Longrightarrow> cmp a w = 0 \<Longrightarrow> cmp v w = 0"
      by (rule consistentOn_equal_trans [OF assms(1,2,3) w])
    then have "\<not> (cmp a v = 0 \<and> cmp a w = 0)" using False by auto
    moreover have "insertBy cmp v (w # ws) = w # insertBy cmp v ws" using False by simp
    ultimately show ?thesis using Cons.IH [OF ws] by (simp only: filter.simps split: if_splits) auto
  qed
qed

lemma filter_insertionSort:
  assumes "consistentOn cmp S" and "a \<in> S"
  shows "set xs \<subseteq> S \<Longrightarrow>
    filter (\<lambda>b. cmp a b = 0) (insertionSort cmp xs) = filter (\<lambda>b. cmp a b = 0) xs"
proof (induction xs)
  case Nil
  then show ?case by (simp add: insertionSort_def)
next
  case (Cons x xs)
  have x: "x \<in> S" and xs: "set xs \<subseteq> S" using Cons.prems by auto
  have "set (insertionSort cmp xs) = set xs"
    using mset_insertionSort [of cmp xs] by (rule mset_eq_setD)
  then have sub: "set (insertionSort cmp xs) \<subseteq> S" using xs by simp
  have "insertionSort cmp (x # xs) = insertBy cmp x (insertionSort cmp xs)"
    by (simp add: insertionSort_def)
  then show ?case
    using filter_insertBy [OF assms x sub] Cons.IH [OF xs] by simp
qed

lemma stableSort_insertionSort: "stableSort insertionSort"
  unfolding stableSort_def
proof (intro allI impI ballI)
  fix cmp :: "'a \<Rightarrow> 'a \<Rightarrow> real" and xs a
  assume "consistentOn cmp (set xs)" and "a \<in> set xs"
  then show "filter (\<lambda>b. cmp a b = 0) (insertionSort cmp xs) = filter (\<lambda>b. cmp a b = 0) xs"
    by (rule filter_insertionSort) simp
qed

text \<open>Merging halves is a conforming sort as well.\<close>

lemma mset_mergeBy: "mset (mergeBy cmp xs ys) = mset xs + mset ys"
  by (induction cmp xs ys rule: mergeBy.induct) auto

lemma set_mergeBy: "set (mergeBy cmp xs ys) = set xs \<union> set ys"
  using mset_mergeBy [of cmp xs ys] by (metis set_mset_mset set_mset_union)

lemma mset_mergeSort: "mset (mergeSort cmp xs) = mset xs"
proof (induction cmp xs rule: mergeSort.induct)
  case (1 cmp xs)
  show ?case
  proof (cases "length xs < 2")
    case True
    then show ?thesis by (subst mergeSort.simps) simp
  next
    case False
    have "mset (mergeSort cmp xs)
        = mset (take (length xs div 2) xs) + mset (drop (length xs div 2) xs)"
      using False 1 by (subst mergeSort.simps) (simp add: mset_mergeBy)
    also have "\<dots> = mset (take (length xs div 2) xs @ drop (length xs div 2) xs)"
      by (simp only: mset_append)
    finally show ?thesis by simp
  qed
qed

lemma sorted_mergeBy:
  "consistentOn cmp S \<Longrightarrow> set xs \<subseteq> S \<Longrightarrow> set ys \<subseteq> S
    \<Longrightarrow> sorted_wrt (\<lambda>a b. cmp a b \<le> 0) xs \<Longrightarrow> sorted_wrt (\<lambda>a b. cmp a b \<le> 0) ys
    \<Longrightarrow> sorted_wrt (\<lambda>a b. cmp a b \<le> 0) (mergeBy cmp xs ys)"
proof (induction cmp xs ys rule: mergeBy.induct)
  case (1 cmp ys)
  then show ?case by simp
next
  case (2 cmp x xs)
  then show ?case by simp
next
  case (3 cmp x xs y ys)
  have anti: "\<And>a b. a \<in> S \<Longrightarrow> b \<in> S \<Longrightarrow> (cmp a b < 0) = (0 < cmp b a)"
    and trans: "\<And>a b c. a \<in> S \<Longrightarrow> b \<in> S \<Longrightarrow> c \<in> S \<Longrightarrow>
        cmp a b \<le> 0 \<Longrightarrow> cmp b c \<le> 0 \<Longrightarrow> cmp a c \<le> 0"
    using 3(3) unfolding consistentOn_def by blast+
  have x: "x \<in> S" and xs: "set xs \<subseteq> S" and y: "y \<in> S" and ys: "set ys \<subseteq> S"
    using 3(4,5) by auto
  have sx: "sorted_wrt (\<lambda>a b. cmp a b \<le> 0) xs" and hx: "\<forall>z \<in> set xs. cmp x z \<le> 0"
    using 3(6) by auto
  have sy: "sorted_wrt (\<lambda>a b. cmp a b \<le> 0) ys" and hy: "\<forall>z \<in> set ys. cmp y z \<le> 0"
    using 3(7) by auto
  show ?case
  proof (cases "cmp x y \<le> 0")
    case True
    have "sorted_wrt (\<lambda>a b. cmp a b \<le> 0) (mergeBy cmp xs (y # ys))"
      using 3(1) [OF True 3(3) xs 3(5) sx 3(7)] .
    moreover have "\<forall>z \<in> set (mergeBy cmp xs (y # ys)). cmp x z \<le> 0"
    proof
      fix z assume "z \<in> set (mergeBy cmp xs (y # ys))"
      then consider "z \<in> set xs" | "z = y" | "z \<in> set ys" by (auto simp: set_mergeBy)
      then show "cmp x z \<le> 0"
      proof cases
        case 1
        then show ?thesis using hx by simp
      next
        case 2
        then show ?thesis using True by simp
      next
        case 3
        then have "cmp y z \<le> 0" using hy by simp
        then show ?thesis using trans [OF x y _ True] 3 ys by blast
      qed
    qed
    ultimately show ?thesis using True by simp
  next
    case False
    then have "0 < cmp x y" by simp
    then have yx: "cmp y x \<le> 0" using anti [OF y x] by simp
    have "sorted_wrt (\<lambda>a b. cmp a b \<le> 0) (mergeBy cmp (x # xs) ys)"
      using 3(2) [OF False 3(3) 3(4) ys 3(6) sy] .
    moreover have "\<forall>z \<in> set (mergeBy cmp (x # xs) ys). cmp y z \<le> 0"
    proof
      fix z assume "z \<in> set (mergeBy cmp (x # xs) ys)"
      then consider "z = x" | "z \<in> set xs" | "z \<in> set ys" by (auto simp: set_mergeBy)
      then show "cmp y z \<le> 0"
      proof cases
        case 1
        then show ?thesis using yx by simp
      next
        case 2
        then have "cmp x z \<le> 0" using hx by simp
        then show ?thesis using trans [OF y x _ yx] 2 xs by blast
      next
        case 3
        then show ?thesis using hy by simp
      qed
    qed
    ultimately show ?thesis using False by simp
  qed
qed

lemma sorted_mergeSort:
  "consistentOn cmp S \<Longrightarrow> set xs \<subseteq> S \<Longrightarrow> sorted_wrt (\<lambda>a b. cmp a b \<le> 0) (mergeSort cmp xs)"
proof (induction cmp xs rule: mergeSort.induct)
  case (1 cmp xs)
  show ?case
  proof (cases "length xs < 2")
    case True
    then have "length xs = 0 \<or> length xs = 1" by linarith
    then have "sorted_wrt (\<lambda>a b. cmp a b \<le> 0) xs"
      by (cases xs) auto
    then show ?thesis using True by (subst mergeSort.simps) simp
  next
    case False
    let ?l = "take (length xs div 2) xs" and ?r = "drop (length xs div 2) xs"
    have l: "set ?l \<subseteq> S" using 1(4) set_take_subset [of "length xs div 2" xs] by blast
    have r: "set ?r \<subseteq> S" using 1(4) set_drop_subset [of "length xs div 2" xs] by blast
    have ml: "set (mergeSort cmp ?l) \<subseteq> S"
      using l mset_mergeSort [of cmp ?l] by (metis set_mset_mset)
    have mr: "set (mergeSort cmp ?r) \<subseteq> S"
      using r mset_mergeSort [of cmp ?r] by (metis set_mset_mset)
    have "sorted_wrt (\<lambda>a b. cmp a b \<le> 0) (mergeSort cmp ?l)"
      using 1(1) [OF False 1(3) l] .
    moreover have "sorted_wrt (\<lambda>a b. cmp a b \<le> 0) (mergeSort cmp ?r)"
      using 1(2) [OF False 1(3) r] .
    ultimately have "sorted_wrt (\<lambda>a b. cmp a b \<le> 0)
        (mergeBy cmp (mergeSort cmp ?l) (mergeSort cmp ?r))"
      using sorted_mergeBy [OF 1(3) ml mr] by blast
    then show ?thesis using False by (subst mergeSort.simps) simp
  qed
qed

lemma conformingSort_mergeSort: "conformingSort mergeSort"
  unfolding conformingSort_def
proof (intro allI conjI impI)
  fix cmp :: "'a \<Rightarrow> 'a \<Rightarrow> real" and xs
  show "mset (mergeSort cmp xs) = mset xs" by (rule mset_mergeSort)
  assume "consistentOn cmp (set xs)"
  then show "sorted_wrt (\<lambda>a b. cmp a b \<le> 0) (mergeSort cmp xs)"
    by (rule sorted_mergeSort) simp
qed

lemma mergeSort_four:
  "mergeSort cmp [a, b, c, d] = mergeBy cmp (mergeBy cmp [a] [b]) (mergeBy cmp [c] [d])"
proof -
  have one: "mergeSort cmp [v] = [v]" for v by (subst mergeSort.simps) simp
  have two: "mergeSort cmp [v, w] = mergeBy cmp [v] [w]" for v w
    by (subst mergeSort.simps) (simp add: one)
  show ?thesis by (subst mergeSort.simps) (simp add: two)
qed

text \<open>
  What a sort does on a batch with such a cycle is not decided by the program. Two
  conforming sorts number the four detections below differently, and under the second one
  sorting the sorted batch again changes the order once more.
\<close>

lemma spatial_sort_engine_dependent:
  "conformingSort (insertionSort :: (prediction \<Rightarrow> prediction \<Rightarrow> real) \<Rightarrow> _)
   \<and> conformingSort (mergeSort :: (prediction \<Rightarrow> prediction \<Rightarrow> real) \<Rightarrow> _)
   \<and> sortSlotsSpatiallly insertionSort
        [examplePrediction 100 0 ''empty'', examplePrediction 0 80 ''empty'',
         examplePrediction 50 40 ''empty'', examplePrediction 150 40 ''empty'']
     = [examplePrediction 100 0 ''empty'', examplePrediction 0 80 ''empty'',
        examplePrediction 50 40 ''empty'', examplePrediction 150 40 ''empty'']
   \<and> sortSlotsSpatiallly mergeSort
        [examplePrediction 100 0 ''empty'', examplePrediction 0 80 ''empty'',
         examplePrediction 50 40 ''empty'', examplePrediction 150 40 ''empty'']
     = [examplePrediction 50 40 ''empty'', examplePrediction 100 0 ''empty'',
        examplePrediction 0 80 ''empty'', examplePrediction 150 40 ''empty'']
   \<and> sortSlotsSpatiallly mergeSort
        [examplePrediction 50 40 ''empty'', examplePrediction 100 0 ''empty'',
         examplePrediction 0 80 ''empty'', examplePrediction 150 40 ''empty'']
     = [examplePrediction 0 80 ''empty'', examplePrediction 50 40 ''empty'',
        examplePrediction 100 0 ''empty'', examplePrediction 150 40 ''empty'']"
proof (intro conjI)
  show "conformingSort (insertionSort :: (prediction \<Rightarrow> prediction \<Rightarrow> real) \<Rightarrow> _)"
    by (rule conformingSort_insertionSort)
  show "conformingSort (mergeSort :: (prediction \<Rightarrow> prediction \<Rightarrow> real) \<Rightarrow> _)"
    by (rule conformingSort_mergeSort)
qed (simp_all add: sortSlotsSpatiallly_def insertionSort_def mergeSort_four
    spatialCompare_def examplePrediction_def fl64_zero fl64_numeral fl64_neg_numeral)

lemma spatialCompare_example:
  "spatialCompare (examplePrediction (numeral a) (numeral b) c) (examplePrediction (numeral a') (numeral b') c')
     = (if \<bar>fl64 (numeral b - numeral b')\<bar> < 50 then fl64 (numeral a - numeral a')
        else fl64 (numeral b - numeral b'))"
  by (simp add: spatialCompare_def examplePrediction_def)

lemma consistentOn_exampleBatch: "consistentOn spatialCompare (set exampleBatch)"
  unfolding consistentOn_def exampleBatch_def
  by (simp add: spatialCompare_example fl64_zero fl64_numeral fl64_neg_numeral)

text \<open>
  The difference of two distinct doubles does not round to zero, so the sign of a computed
  difference is the sign of the exact one.
\<close>

lemma double_finest_grid:
  assumes "fl64 a = a"
  shows "\<exists>k. a = of_int k * 2 powi (minExponent - 52)"
proof (cases "a = 0")
  case True
  then have "a = of_int 0 * 2 powi (minExponent - 52)" by simp
  then show ?thesis by blast
next
  case False
  then have "a = of_int (roundTiesToEven (a / 2 powi (exponent64 a - 52)))
      * 2 powi (exponent64 a - 52)"
    using assms by (simp add: fl64_def)
  also have "\<dots> = of_int (roundTiesToEven (a / 2 powi (exponent64 a - 52))
      * 2 ^ nat (exponent64 a - minExponent)) * 2 powi (minExponent - 52)"
    by (rule grid_coarser [OF exponent64_ge])
  finally show ?thesis by blast
qed

lemma fl64_pos:
  assumes "0 < d" and "d = of_int m * 2 powi (minExponent - 52)"
  shows "0 < fl64 d"
proof (cases "2 powi minExponent \<le> d")
  case True
  then have "2 powi minExponent \<le> \<bar>d\<bar>" by simp
  then have low: "2 powi (exponent64 d) \<le> \<bar>d\<bar>" by (rule exponent64_lower)
  have "(2::real) powi (exponent64 d) = 2 powi (52 + (exponent64 d - 52))" by simp
  also have "\<dots> = 2 powi 52 * 2 powi (exponent64 d - 52)"
    by (rule power_int_add) simp
  also have "\<dots> = of_int (2 ^ 52) * 2 powi (exponent64 d - 52)" by simp
  finally have grid: "(2::real) powi (exponent64 d) = of_int (2 ^ 52) * 2 powi (exponent64 d - 52)" .
  have "2 powi (exponent64 d) \<le> d" using low assms(1) by simp
  then have "2 powi (exponent64 d) \<le> fl64 d" using grid by (rule fl64_ge_grid)
  moreover have "(0::real) < 2 powi (exponent64 d)" by simp
  ultimately show ?thesis by linarith
next
  case False
  have "(2::real) powi minExponent \<le> 2 powi (minExponent + 1)"
    by (rule power_int_increasing) simp_all
  then have "\<bar>d\<bar> < 2 powi (minExponent + 1)" using False assms(1) by simp
  then have "d \<le> fl64 d"
    using assms(2) by (intro fl64_ge [of d d minExponent m]) simp_all
  then show ?thesis using assms(1) by linarith
qed

lemma fl64_diff_pos:
  assumes "fl64 a = a" and "fl64 b = b" and "b < a"
  shows "0 < fl64 (a - b)"
proof -
  obtain k where k: "a = of_int k * 2 powi (minExponent - 52)"
    using double_finest_grid [OF assms(1)] by blast
  obtain l where l: "b = of_int l * 2 powi (minExponent - 52)"
    using double_finest_grid [OF assms(2)] by blast
  have "a - b = of_int (k - l) * 2 powi (minExponent - 52)"
    unfolding k l by (simp add: algebra_simps)
  moreover have "0 < a - b" using assms(3) by simp
  ultimately show ?thesis by (rule fl64_pos [rotated])
qed

lemma spatialCompare_same_row:
  assumes "fl64 (pred_x p) = pred_x p" and "fl64 (pred_x q) = pred_x q"
    and "spatialCompare p q \<le> 0" and "\<bar>fl64 (pred_y p - pred_y q)\<bar> < 50"
  shows "pred_x p \<le> pred_x q"
proof (rule ccontr)
  assume "\<not> pred_x p \<le> pred_x q"
  then have "pred_x q < pred_x p" by simp
  then have "0 < fl64 (pred_x p - pred_x q)" using assms(1,2) by (intro fl64_diff_pos)
  moreover have "spatialCompare p q = fl64 (pred_x p - pred_x q)"
    using assms(4) by (simp add: spatialCompare_def)
  ultimately show False using assms(3) by simp
qed

text \<open>
  What the program itself settles of the spatial order: on a batch of detections on which
  the comparator is consistent, whatever conforming and stable sort the engine runs,
  sorting the sorted batch again changes nothing, and of two neighbours in the sorted batch
  whose computed y difference is below 50 the first has the smaller or the same x.
\<close>

lemma spatial_sort_consistent_batch:
  assumes "conformingSort srt" and "stableSort srt"
    and "consistentOn spatialCompare (set predictions)"
    and "\<forall>p \<in> set predictions. fl64 (pred_x p) = pred_x p"
  shows "sortSlotsSpatiallly srt (sortSlotsSpatiallly srt predictions)
       = sortSlotsSpatiallly srt predictions
     \<and> (\<forall>i. Suc i < length predictions
          \<and> \<bar>fl64 (pred_y (sortSlotsSpatiallly srt predictions ! i)
                - pred_y (sortSlotsSpatiallly srt predictions ! Suc i))\<bar> < 50
          \<longrightarrow> pred_x (sortSlotsSpatiallly srt predictions ! i)
              \<le> pred_x (sortSlotsSpatiallly srt predictions ! Suc i))"
proof (intro conjI allI impI)
  show "sortSlotsSpatiallly srt (sortSlotsSpatiallly srt predictions)
       = sortSlotsSpatiallly srt predictions"
    unfolding sortSlotsSpatiallly_def by (rule stable_sort_idempotent [OF assms(1-3)])
next
  fix i
  let ?S = "sortSlotsSpatiallly srt predictions"
  assume a: "Suc i < length predictions
     \<and> \<bar>fl64 (pred_y (?S ! i) - pred_y (?S ! Suc i))\<bar> < 50"
  have m: "mset ?S = mset predictions"
    using assms(1) unfolding conformingSort_def sortSlotsSpatiallly_def by blast
  then have sets: "set ?S = set predictions" by (rule mset_eq_setD)
  have len: "length ?S = length predictions" using m by (rule mset_eq_length)
  have "sorted_wrt (\<lambda>p q. spatialCompare p q \<le> 0) ?S"
    using assms(1,3) unfolding conformingSort_def sortSlotsSpatiallly_def by blast
  moreover have "i < Suc i" and "Suc i < length ?S" using a len by simp_all
  ultimately have le: "spatialCompare (?S ! i) (?S ! Suc i) \<le> 0"
    by (rule sorted_wrt_nth_less)
  have "?S ! i \<in> set predictions" and "?S ! Suc i \<in> set predictions"
    using a len sets nth_mem [of i ?S] nth_mem [of "Suc i" ?S] by auto
  then have "fl64 (pred_x (?S ! i)) = pred_x (?S ! i)"
    and "fl64 (pred_x (?S ! Suc i)) = pred_x (?S ! Suc i)"
    using assms(4) by blast+
  then show "pred_x (?S ! i) \<le> pred_x (?S ! Suc i)"
    using le a by (intro spatialCompare_same_row) simp_all
qed

text \<open>
  On the example batch the comparator is consistent and ranks no two detections equal, so
  every conforming sort returns it in the same order.
\<close>

lemma exampleBatch_no_ties:
  "\<forall>a \<in> set exampleBatch. \<forall>b \<in> set exampleBatch. spatialCompare a b = 0 \<longrightarrow> a = b"
  unfolding exampleBatch_def
  by (simp add: spatialCompare_example fl64_zero fl64_numeral fl64_neg_numeral)

lemma insertionSort_exampleBatch:
  "insertionSort spatialCompare exampleBatch =
     [examplePrediction 100 100 ''empty'', examplePrediction 200 110 ''empty'',
      examplePrediction 300 95 ''occupied'', examplePrediction 400 102 ''occupied'',
      examplePrediction 500 100 ''empty'', examplePrediction 600 100 ''free'',
      examplePrediction 700 105 ''empty'', examplePrediction 800 98 ''empty'',
      examplePrediction 150 200 ''occupied'']"
  by (simp add: insertionSort_def exampleBatch_def spatialCompare_example
      fl64_zero fl64_numeral fl64_neg_numeral)

lemma exampleBatch_order:
  assumes "conformingSort srt"
  shows "sortSlotsSpatiallly srt exampleBatch =
     [examplePrediction 100 100 ''empty'', examplePrediction 200 110 ''empty'',
      examplePrediction 300 95 ''occupied'', examplePrediction 400 102 ''occupied'',
      examplePrediction 500 100 ''empty'', examplePrediction 600 100 ''free'',
      examplePrediction 700 105 ''empty'', examplePrediction 800 98 ''empty'',
      examplePrediction 150 200 ''occupied'']"
  unfolding sortSlotsSpatiallly_def insertionSort_exampleBatch [symmetric]
  by (rule conforming_sorts_agree [OF assms conformingSort_insertionSort
        consistentOn_exampleBatch exampleBatch_no_ties])

lemma conformingSort_length: "conformingSort srt \<Longrightarrow> length (srt cmp xs) = length xs"
  unfolding conformingSort_def by (metis size_mset)

lemma length_makeSlots: "length (makeSlots sortedSlots imageData) = length sortedSlots"
  by (simp add: makeSlots_def)

lemma nth_makeSlots:
  "i < length sortedSlots \<Longrightarrow>
   makeSlots sortedSlots imageData ! i = makeSlot (length sortedSlots) imageData i (sortedSlots ! i)"
  by (simp add: makeSlots_def nth_enumerate_eq)

lemma slot_numbers_makeSlots:
  "map slot_number (makeSlots sortedSlots imageData) = [1..<Suc (length sortedSlots)]"
proof (rule nth_equalityI)
  show "length (map slot_number (makeSlots sortedSlots imageData))
      = length [1..<Suc (length sortedSlots)]"
    by (simp add: length_makeSlots del: upt_Suc)
next
  fix i assume "i < length (map slot_number (makeSlots sortedSlots imageData))"
  then have i: "i < length sortedSlots" by (simp add: length_makeSlots)
  then show "map slot_number (makeSlots sortedSlots imageData) ! i
      = [1..<Suc (length sortedSlots)] ! i"
    by (simp add: length_makeSlots nth_makeSlots makeSlot_def del: upt_Suc)
qed

lemma grid_makeSlots:
  assumes "s \<in> set (makeSlots sortedSlots imageData)"
  shows "row s = (slot_number s - 1) div 8 \<and> col s = (slot_number s - 1) mod 8"
proof -
  from assms obtain i where "i < length sortedSlots"
    and "s = makeSlots sortedSlots imageData ! i"
    by (auto simp: in_set_conv_nth length_makeSlots)
  then show ?thesis by (simp add: nth_makeSlots makeSlot_def)
qed

lemma fields_makeSlots:
  "map (\<lambda>s. (slot_x s, slot_y s, original_class s)) (makeSlots sortedSlots imageData)
     = map (\<lambda>p. (pred_x p, pred_y p, pred_class p)) sortedSlots"
proof (rule nth_equalityI)
  show "length (map (\<lambda>s. (slot_x s, slot_y s, original_class s)) (makeSlots sortedSlots imageData))
      = length (map (\<lambda>p. (pred_x p, pred_y p, pred_class p)) sortedSlots)"
    by (simp add: length_makeSlots)
next
  fix i
  assume "i < length (map (\<lambda>s. (slot_x s, slot_y s, original_class s))
      (makeSlots sortedSlots imageData))"
  then have "i < length sortedSlots" by (simp add: length_makeSlots)
  then show "map (\<lambda>s. (slot_x s, slot_y s, original_class s)) (makeSlots sortedSlots imageData) ! i
      = map (\<lambda>p. (pred_x p, pred_y p, pred_class p)) sortedSlots ! i"
    by (simp add: length_makeSlots nth_makeSlots makeSlot_def)
qed

lemma roboflow_detectParkingSlots_ok:
  assumes "key \<noteq> []" and "resp_ok response"
    and "resp_predictions response = Some predictions" and "predictions \<noteq> []"
  shows "roboflow_detectParkingSlots srt key response =
     Inr \<lparr> total_slots = length (sortSlotsSpatiallly srt predictions),
           empty_slots = map (\<lambda>(i, _). i + 1)
             (enumerate 0 (filter (\<lambda>s. isEmptySlot (pred_class s))
                (sortSlotsSpatiallly srt predictions))),
           occupied_slots = map (\<lambda>(i, _). i + 1)
             (enumerate 0 (filter (\<lambda>s. \<not> isEmptySlot (pred_class s))
                (sortSlotsSpatiallly srt predictions))),
           slots = makeSlots (sortSlotsSpatiallly srt predictions) (resp_image response),
           detection_image = resp_image response \<rparr>"
  using assms by (simp add: roboflow_detectParkingSlots_def Let_def)

lemma detectParkingSlots_slots:
  assumes "\<not> falsyImage (parkingImage st)"
    and "roboflow_detectParkingSlots srt (apiKey st) response = Inr result"
  shows "detectedSlots (detectParkingSlots srt (Inr response) st) = slots result"
  using assms by (simp add: detectParkingSlots_def Let_def)

text \<open>
  C5. For a reply with \<open>N > 0\<close> detections and a conforming sort, the slot list has the
  numbers \<open>1, \<dots>, N\<close> in this order; the slots follow the sorted batch, which is a
  rearrangement of the detections and, when the comparator is consistent on them, in
  comparator order; every slot has \<open>row = (slot_number - 1) div 8\<close> and
  \<open>col = (slot_number - 1) mod 8\<close>; and the slots depend on the reply alone: every
  session in which the reply is processed ends with this slot list.
\<close>

theorem C5_slot_numbering:
  assumes "conformingSort srt"
    and "key \<noteq> []" and "resp_ok response"
    and "resp_predictions response = Some predictions" and "predictions \<noteq> []"
  shows "\<exists>result. roboflow_detectParkingSlots srt key response = Inr result
     \<and> map slot_number (slots result) = [1..<Suc (length predictions)]
     \<and> set (map slot_number (slots result)) = {1..length predictions}
     \<and> (\<forall>s \<in> set (slots result).
           row s = (slot_number s - 1) div 8 \<and> col s = (slot_number s - 1) mod 8)
     \<and> map (\<lambda>s. (slot_x s, slot_y s, original_class s)) (slots result)
         = map (\<lambda>p. (pred_x p, pred_y p, pred_class p)) (srt spatialCompare predictions)
     \<and> mset (srt spatialCompare predictions) = mset predictions
     \<and> (consistentOn spatialCompare (set predictions) \<longrightarrow>
          sorted_wrt (\<lambda>p q. spatialCompare p q \<le> 0) (srt spatialCompare predictions))
     \<and> (\<forall>st. \<not> falsyImage (parkingImage st) \<and> apiKey st = key \<longrightarrow>
          detectedSlots (detectParkingSlots srt (Inr response) st) = slots result)"
proof -
  let ?sorted = "sortSlotsSpatiallly srt predictions"
  let ?result = "\<lparr> total_slots = length ?sorted,
           empty_slots = map (\<lambda>(i, _). i + 1)
             (enumerate 0 (filter (\<lambda>s. isEmptySlot (pred_class s)) ?sorted)),
           occupied_slots = map (\<lambda>(i, _). i + 1)
             (enumerate 0 (filter (\<lambda>s. \<not> isEmptySlot (pred_class s)) ?sorted)),
           slots = makeSlots ?sorted (resp_image response),
           detection_image = resp_image response \<rparr>"
  have len: "length ?sorted = length predictions"
    using conformingSort_length [OF assms(1)] by (simp add: sortSlotsSpatiallly_def)
  have run: "roboflow_detectParkingSlots srt key response = Inr ?result"
    by (rule roboflow_detectParkingSlots_ok [OF assms(2-5)])
  have nums: "map slot_number (slots ?result) = [1..<Suc (length predictions)]"
    by (simp add: slot_numbers_makeSlots len)
  have numset: "set (map slot_number (slots ?result)) = {1..length predictions}"
    unfolding nums by auto
  have grid: "\<forall>s \<in> set (slots ?result).
           row s = (slot_number s - 1) div 8 \<and> col s = (slot_number s - 1) mod 8"
    using grid_makeSlots by simp
  have order: "map (\<lambda>s. (slot_x s, slot_y s, original_class s)) (slots ?result)
         = map (\<lambda>p. (pred_x p, pred_y p, pred_class p)) (srt spatialCompare predictions)"
    using fields_makeSlots [of ?sorted "resp_image response"]
    by (simp add: sortSlotsSpatiallly_def)
  have perm: "mset (srt spatialCompare predictions) = mset predictions"
    using assms(1) unfolding conformingSort_def by blast
  have sorted: "consistentOn spatialCompare (set predictions) \<longrightarrow>
          sorted_wrt (\<lambda>p q. spatialCompare p q \<le> 0) (srt spatialCompare predictions)"
    using assms(1) unfolding conformingSort_def by blast
  have pure: "\<forall>st. \<not> falsyImage (parkingImage st) \<and> apiKey st = key \<longrightarrow>
          detectedSlots (detectParkingSlots srt (Inr response) st) = slots ?result"
    using detectParkingSlots_slots run by blast
  from run nums numset grid order perm sorted pure show ?thesis by blast
qed

theorem C5_slot_numbering_witness:
  "conformingSort (insertionSort :: (prediction \<Rightarrow> prediction \<Rightarrow> real) \<Rightarrow> _)
   \<and> ''key'' \<noteq> []
   \<and> resp_ok (exampleSlotReply exampleBatch)
   \<and> resp_predictions (exampleSlotReply exampleBatch) = Some exampleBatch
   \<and> exampleBatch \<noteq> []
   \<and> consistentOn spatialCompare (set exampleBatch)
   \<and> sorted_wrt (\<lambda>p q. spatialCompare p q \<le> 0) (insertionSort spatialCompare exampleBatch)
   \<and> (\<exists>result. roboflow_detectParkingSlots insertionSort ''key''
           (exampleSlotReply exampleBatch) = Inr result
        \<and> map slot_number (slots result) = [1, 2, 3, 4, 5, 6, 7, 8, 9]
        \<and> map row (slots result) = [0, 0, 0, 0, 0, 0, 0, 0, 1]
        \<and> map col (slots result) = [0, 1, 2, 3, 4, 5, 6, 7, 0]
        \<and> map (\<lambda>s. (slot_x s, slot_y s, original_class s)) (slots result)
            = [(100, 100, ''empty''), (200, 110, ''empty''), (300, 95, ''occupied''),
               (400, 102, ''occupied''), (500, 100, ''empty''), (600, 100, ''free''),
               (700, 105, ''empty''), (800, 98, ''empty''), (150, 200, ''occupied'')])"
proof -
  have conf: "conformingSort (insertionSort :: (prediction \<Rightarrow> prediction \<Rightarrow> real) \<Rightarrow> _)"
    by (rule conformingSort_insertionSort)
  have key: "''key'' \<noteq> []" by simp
  have ok: "resp_ok (exampleSlotReply exampleBatch)" by (simp add: exampleSlotReply_def)
  have preds: "resp_predictions (exampleSlotReply exampleBatch) = Some exampleBatch"
    by (simp add: exampleSlotReply_def)
  have ne: "exampleBatch \<noteq> []" by (simp add: exampleBatch_def)
  have len: "length exampleBatch = 9" by (simp add: exampleBatch_def)
  have sorted: "map (\<lambda>p. (pred_x p, pred_y p, pred_class p))
      (insertionSort spatialCompare exampleBatch)
      = [(100, 100, ''empty''), (200, 110, ''empty''), (300, 95, ''occupied''),
         (400, 102, ''occupied''), (500, 100, ''empty''), (600, 100, ''free''),
         (700, 105, ''empty''), (800, 98, ''empty''), (150, 200, ''occupied'')]"
    by (simp add: insertionSort_def exampleBatch_def spatialCompare_def examplePrediction_def
        fl64_zero fl64_numeral fl64_neg_numeral)
  from C5_slot_numbering [OF conf key ok preds ne] obtain result
    where run: "roboflow_detectParkingSlots insertionSort ''key'' (exampleSlotReply exampleBatch)
        = Inr result"
      and nums: "map slot_number (slots result) = [1..<Suc (length exampleBatch)]"
      and grid: "\<forall>s \<in> set (slots result).
           row s = (slot_number s - 1) div 8 \<and> col s = (slot_number s - 1) mod 8"
      and order: "map (\<lambda>s. (slot_x s, slot_y s, original_class s)) (slots result)
         = map (\<lambda>p. (pred_x p, pred_y p, pred_class p)) (insertionSort spatialCompare exampleBatch)"
      and inorder: "consistentOn spatialCompare (set exampleBatch) \<longrightarrow>
          sorted_wrt (\<lambda>p q. spatialCompare p q \<le> 0) (insertionSort spatialCompare exampleBatch)"
    by blast
  have cons: "consistentOn spatialCompare (set exampleBatch)"
    by (rule consistentOn_exampleBatch)
  with inorder
  have srt: "sorted_wrt (\<lambda>p q. spatialCompare p q \<le> 0) (insertionSort spatialCompare exampleBatch)"
    by simp
  have upt: "[1..<Suc (length exampleBatch)] = [1, 2, 3, 4, 5, 6, 7, 8, 9]"
    unfolding len by code_simp
  have "map row (slots result) = map (\<lambda>n. (n - 1) div 8) (map slot_number (slots result))"
    using grid by simp
  then have rows: "map row (slots result) = [0, 0, 0, 0, 0, 0, 0, 0, 1]"
    unfolding nums upt by simp
  have "map col (slots result) = map (\<lambda>n. (n - 1) mod 8) (map slot_number (slots result))"
    using grid by simp
  then have cols: "map col (slots result) = [0, 1, 2, 3, 4, 5, 6, 7, 0]"
    unfolding nums upt by simp
  from run nums upt rows cols order sorted
  have "\<exists>result. roboflow_detectParkingSlots insertionSort ''key''
           (exampleSlotReply exampleBatch) = Inr result
        \<and> map slot_number (slots result) = [1, 2, 3, 4, 5, 6, 7, 8, 9]
        \<and> map row (slots result) = [0, 0, 0, 0, 0, 0, 0, 0, 1]
        \<and> map col (slots result) = [0, 1, 2, 3, 4, 5, 6, 7, 0]
        \<and> map (\<lambda>s. (slot_x s, slot_y s, original_class s)) (slots result)
            = [(100, 100, ''empty''), (200, 110, ''empty''), (300, 95, ''occupied''),
               (400, 102, ''occupied''), (500, 100, ''empty''), (600, 100, ''free''),
               (700, 105, ''empty''), (800, 98, ''empty''), (150, 200, ''occupied'')]"
    by auto
  with conf key ok preds ne cons srt show ?thesis by blast
qed

end
